theory Spec2Isabelle
  imports Main "HOL-Library.Product_Lexorder" "HOL-Library.Sublist"
begin

section \<open>Go strings: bytes, runes and UTF-8\<close>

text \<open>
  A Go \<^verbatim>\<open>string\<close> is a sequence of bytes; it is modelled as a \<^typ>\<open>string\<close>
  (a list of 8-bit characters).  A \<^verbatim>\<open>rune\<close> is a code point, modelled as a
  natural number.  The functions of this section model the parts of the Go standard
  library (\<^verbatim>\<open>unicode/utf8\<close>, \<^verbatim>\<open>unicode\<close>, \<^verbatim>\<open>strings\<close>) that
  \<^verbatim>\<open>cmd/dijnet/main.go\<close> calls.  The one part that is not written out is the
  Unicode case table for code points beyond ASCII: every function that lowercases takes
  it as the parameter \<open>lc\<close>, and every theorem holds for any such table.
\<close>

type_synonym rune = nat

abbreviation byte :: "char \<Rightarrow> nat" where
  "byte \<equiv> of_char"

definition RuneError :: rune where
  "RuneError = 0xFFFD"

text \<open>
  \<^verbatim>\<open>utf8.first\<close> and \<^verbatim>\<open>utf8.acceptRanges\<close>: for a leading byte of a
  multi-byte sequence, the length of the sequence and the range its second byte must
  lie in; \<open>None\<close> for a byte that starts no multi-byte sequence.
\<close>

definition first :: "nat \<Rightarrow> (nat \<times> nat \<times> nat) option" where
  "first b =
     (if 0xC2 \<le> b \<and> b \<le> 0xDF then Some (2, 0x80, 0xBF)
      else if b = 0xE0 then Some (3, 0xA0, 0xBF)
      else if 0xE1 \<le> b \<and> b \<le> 0xEC then Some (3, 0x80, 0xBF)
      else if b = 0xED then Some (3, 0x80, 0x9F)
      else if 0xEE \<le> b \<and> b \<le> 0xEF then Some (3, 0x80, 0xBF)
      else if b = 0xF0 then Some (4, 0x90, 0xBF)
      else if 0xF1 \<le> b \<and> b \<le> 0xF3 then Some (4, 0x80, 0xBF)
      else if b = 0xF4 then Some (4, 0x80, 0x8F)
      else None)"

text \<open>\<^verbatim>\<open>utf8.DecodeRuneInString\<close>: the first rune of \<open>s\<close> and its width in bytes.\<close>

definition DecodeRuneInString :: "string \<Rightarrow> rune \<times> nat" where
  "DecodeRuneInString s =
     (if length s < 1 then (RuneError, 0)
      else let s0 = byte (s ! 0) in
        if s0 < 0x80 then (s0, 1)
        else case first s0 of
          None \<Rightarrow> (RuneError, 1)
        | Some (sz, lo, hi) \<Rightarrow>
            if length s < sz then (RuneError, 1)
            else let s1 = byte (s ! 1) in
              if s1 < lo \<or> hi < s1 then (RuneError, 1)
              else if sz \<le> 2 then ((s0 mod 32) * 64 + s1 mod 64, 2)
              else let s2 = byte (s ! 2) in
                if s2 < 0x80 \<or> 0xBF < s2 then (RuneError, 1)
                else if sz \<le> 3 then ((s0 mod 16) * 4096 + (s1 mod 64) * 64 + s2 mod 64, 3)
                else let s3 = byte (s ! 3) in
                  if s3 < 0x80 \<or> 0xBF < s3 then (RuneError, 1)
                  else ((s0 mod 8) * 262144 + (s1 mod 64) * 4096 + (s2 mod 64) * 64
                          + s3 mod 64, 4))"

text \<open>\<^verbatim>\<open>utf8.AppendRune\<close>: the UTF-8 encoding of a rune; a surrogate or a value
  beyond \<^verbatim>\<open>MaxRune\<close> is encoded as \<^verbatim>\<open>RuneError\<close>.\<close>

definition encode3 :: "rune \<Rightarrow> string" where
  "encode3 r = [char_of (0xE0 + r div 4096), char_of (0x80 + r div 64 mod 64),
                char_of (0x80 + r mod 64)]"

definition AppendRune :: "rune \<Rightarrow> string" where
  "AppendRune r =
     (if r \<le> 0x7F then [char_of r]
      else if r \<le> 0x7FF then [char_of (0xC0 + r div 64), char_of (0x80 + r mod 64)]
      else if r > 0x10FFFF \<or> (0xD800 \<le> r \<and> r \<le> 0xDFFF) then encode3 RuneError
      else if r \<le> 0xFFFF then encode3 r
      else [char_of (0xF0 + r div 262144), char_of (0x80 + r div 4096 mod 64),
            char_of (0x80 + r div 64 mod 64), char_of (0x80 + r mod 64)])"

text \<open>The runes a \<^verbatim>\<open>for _, c := range s\<close> loop yields: an invalid byte yields
  \<^verbatim>\<open>RuneError\<close> and the loop moves on by one byte.\<close>

fun runes :: "string \<Rightarrow> rune list" where
  "runes [] = []"
| "runes (c # cs) =
     (case DecodeRuneInString (c # cs) of (r, w) \<Rightarrow> r # runes (drop (w - 1) cs))"

text \<open>\<^verbatim>\<open>unicode.ToLower\<close>; \<open>lc\<close> is the case table beyond ASCII.\<close>

definition unicode_ToLower :: "(rune \<Rightarrow> rune) \<Rightarrow> rune \<Rightarrow> rune" where
  "unicode_ToLower lc r =
     (if r \<le> 0x7F then (if 0x41 \<le> r \<and> r \<le> 0x5A then r + 0x20 else r)
      else lc r)"

text \<open>\<^verbatim>\<open>strings.Map\<close> (for a mapping that never returns a negative rune): every
  rune of \<open>s\<close> is replaced by the encoding of its image.\<close>

definition Map :: "(rune \<Rightarrow> rune) \<Rightarrow> string \<Rightarrow> string" where
  "Map mapping s = concat (map (\<lambda>c. AppendRune (mapping c)) (runes s))"

text \<open>\<^verbatim>\<open>strings.ToLower\<close>, with its path for strings of ASCII bytes only.\<close>

definition ToLower :: "(rune \<Rightarrow> rune) \<Rightarrow> string \<Rightarrow> string" where
  "ToLower lc s =
     (let isASCII = list_all (\<lambda>c. byte c < 0x80) s;
          hasUpper = list_ex (\<lambda>c. 0x41 \<le> byte c \<and> byte c \<le> 0x5A) s
      in if isASCII then
           (if \<not> hasUpper then s
            else map (\<lambda>c. if 0x41 \<le> byte c \<and> byte c \<le> 0x5A then char_of (byte c + 0x20) else c) s)
         else Map (unicode_ToLower lc) s)"

text \<open>\<^verbatim>\<open>unicode.IsSpace\<close>: the Latin-1 white space, and beyond Latin-1 the code
  points of the Unicode property \<^verbatim>\<open>White_Space\<close>.\<close>

definition IsSpace :: "rune \<Rightarrow> bool" where
  "IsSpace r =
     (if r \<le> 0xFF then r \<in> {0x09, 0x0A, 0x0B, 0x0C, 0x0D, 0x20, 0x85, 0xA0}
      else r = 0x1680 \<or> (0x2000 \<le> r \<and> r \<le> 0x200A) \<or> r = 0x2028 \<or> r = 0x2029
           \<or> r = 0x202F \<or> r = 0x205F \<or> r = 0x3000)"

text \<open>\<^verbatim>\<open>strings.asciiSpace\<close>: tab, line feed, vertical tab, form feed, carriage
  return and space.\<close>

definition asciiSpace :: "char \<Rightarrow> bool" where
  "asciiSpace c = (byte c \<in> {0x09, 0x0A, 0x0B, 0x0C, 0x0D, 0x20})"

text \<open>\<^verbatim>\<open>utf8.RuneStart\<close>: the byte is not a continuation byte.\<close>

definition RuneStart :: "nat \<Rightarrow> bool" where
  "RuneStart b = (\<not> (0x80 \<le> b \<and> b \<le> 0xBF))"

text \<open>The backwards scan of \<^verbatim>\<open>utf8.DecodeLastRuneInString\<close>:
  \<^verbatim>\<open>for start--; start >= lim; start-- { if RuneStart(s[start]) { break } }\<close>.\<close>

function scanStart :: "string \<Rightarrow> int \<Rightarrow> int \<Rightarrow> int" where
  "scanStart s start lim =
     (if start \<ge> lim then
        (if RuneStart (byte (s ! nat start)) then start else scanStart s (start - 1) lim)
      else start)"
  by pat_completeness auto
termination
  by (relation "measure (\<lambda>(s, start, lim). nat (start - lim + 1))") auto

declare scanStart.simps [simp del]

text \<open>\<^verbatim>\<open>utf8.DecodeLastRuneInString\<close>: the last rune of \<open>s\<close> and its width.\<close>

definition DecodeLastRuneInString :: "string \<Rightarrow> rune \<times> nat" where
  "DecodeLastRuneInString s =
     (let n = length s in
      if n = 0 then (RuneError, 0)
      else let r = byte (s ! (n - 1)) in
        if r < 0x80 then (r, 1)
        else let lim = max (int n - 4) 0;
                 start = nat (max (scanStart s (int n - 2) lim) 0)
          in case DecodeRuneInString (drop start s) of
               (r, w) \<Rightarrow> if start + w \<noteq> n then (RuneError, 1) else (r, w))"

text \<open>\<^verbatim>\<open>strings.TrimLeftFunc\<close>: \<^verbatim>\<open>s[i:]\<close> for the first rune, at byte \<open>i\<close>,
  that \<open>f\<close> rejects; the empty string when there is none.\<close>

fun TrimLeftFunc :: "(rune \<Rightarrow> bool) \<Rightarrow> string \<Rightarrow> string" where
  "TrimLeftFunc f [] = []"
| "TrimLeftFunc f (c # cs) =
     (case DecodeRuneInString (c # cs) of
        (r, w) \<Rightarrow> if f r = False then c # cs else TrimLeftFunc f (drop (w - 1) cs))"

text \<open>The backwards scan never moves forward, so the last rune of a non-empty string
  has a positive width; the loop of \<^verbatim>\<open>lastIndexFunc\<close> below terminates by it.\<close>

lemma scanStart_le: "scanStart t a b \<le> a"
  by (induction t a b rule: scanStart.induct) (subst scanStart.simps, auto)

lemma DecodeLastRuneInString_width_pos:
  assumes "(r, w) = DecodeLastRuneInString t" and "0 < length t"
  shows "0 < w"
proof -
  define start where
    "start = nat (max (scanStart t (int (length t) - 2) (max (int (length t) - 4) 0)) 0)"
  have "scanStart t (int (length t) - 2) (max (int (length t) - 4) 0) \<le> int (length t) - 2"
    by (rule scanStart_le)
  then have lt: "start < length t"
    using assms(2) unfolding start_def by (cases t) auto
  obtain r' w' where d: "DecodeRuneInString (drop start t) = (r', w')"
    by (cases "DecodeRuneInString (drop start t)")
  have "0 < snd (DecodeLastRuneInString t)"
    using assms(2) lt d
    by (auto simp: DecodeLastRuneInString_def Let_def start_def [symmetric])
  then show ?thesis
    using assms(1) by (metis snd_conv)
qed

text \<open>\<^verbatim>\<open>strings.lastIndexFunc(s, f, false)\<close>: the byte index of the last rune that
  \<open>f\<close> rejects, or \<open>-1\<close>.  The loop variable \<^verbatim>\<open>i\<close> of the source is the length
  of the argument \<open>t\<close>, which is \<^verbatim>\<open>s[0:i]\<close>.\<close>

function lastIndexFunc :: "(rune \<Rightarrow> bool) \<Rightarrow> string \<Rightarrow> int" where
  "lastIndexFunc f t =
     (if length t > 0 then
        (case DecodeLastRuneInString t of
           (r, w) \<Rightarrow>
             if f r = False then int (length t - w)
             else lastIndexFunc f (take (length t - w) t))
      else - 1)"
  by pat_completeness auto
termination
  by (relation "measure (\<lambda>(f, t). length t)")
     (auto dest: DecodeLastRuneInString_width_pos)

declare lastIndexFunc.simps [simp del]

text \<open>\<^verbatim>\<open>strings.TrimRightFunc\<close>, \<^verbatim>\<open>strings.TrimFunc\<close>.\<close>

definition TrimRightFunc :: "(rune \<Rightarrow> bool) \<Rightarrow> string \<Rightarrow> string" where
  "TrimRightFunc f s =
     (let i = lastIndexFunc f s in
      if i \<ge> 0 \<and> byte (s ! nat i) \<ge> 0x80
      then take (nat i + snd (DecodeRuneInString (drop (nat i) s))) s
      else take (nat (i + 1)) s)"

definition TrimFunc :: "(rune \<Rightarrow> bool) \<Rightarrow> string \<Rightarrow> string" where
  "TrimFunc f s = TrimRightFunc f (TrimLeftFunc f s)"

text \<open>\<^verbatim>\<open>strings.TrimSpace\<close>.  The second loop of the source runs on
  \<^verbatim>\<open>s[start:stop]\<close>, here the argument of \<open>TrimSpace_stop\<close>; the first loop is
  \<open>TrimSpace\<close> itself, on \<^verbatim>\<open>s[start:]\<close>.  Either loop hands over to the
  rune-wise functions at the first byte that is not ASCII.\<close>

function TrimSpace_stop :: "string \<Rightarrow> string" where
  "TrimSpace_stop t =
     (if length t > 0 then
        (let c = t ! (length t - 1) in
         if byte c \<ge> 0x80 then TrimRightFunc IsSpace t
         else if \<not> asciiSpace c then t
         else TrimSpace_stop (take (length t - 1) t))
      else t)"
  by pat_completeness auto
termination
  by (relation "measure length") auto

declare TrimSpace_stop.simps [simp del]

fun TrimSpace :: "string \<Rightarrow> string" where
  "TrimSpace [] = TrimSpace_stop []"
| "TrimSpace (c # cs) =
     (if byte c \<ge> 0x80 then TrimFunc IsSpace (c # cs)
      else if \<not> asciiSpace c then TrimSpace_stop (c # cs)
      else TrimSpace cs)"

declare TrimSpace.simps [simp del]

text \<open>\<^verbatim>\<open>strings.Contains\<close>: \<open>substr\<close> occurs in \<open>s\<close> at some byte offset.\<close>

fun Contains :: "string \<Rightarrow> string \<Rightarrow> bool" where
  "Contains [] substr = (substr = [])"
| "Contains (c # cs) substr = (prefix substr (c # cs) \<or> Contains cs substr)"

text \<open>\<^verbatim>\<open>strings.ReplaceAll\<close>.  For a non-empty \<open>old\<close>, the occurrences are replaced
  from the left, without overlap; for an empty \<open>old\<close>, \<open>new\<close> is inserted before
  every rune and at the end.\<close>

fun replaceFrom :: "string \<Rightarrow> string \<Rightarrow> string \<Rightarrow> string" where
  "replaceFrom old new [] = []"
| "replaceFrom old new (c # cs) =
     (if prefix old (c # cs) then new @ replaceFrom old new (drop (length old - 1) cs)
      else c # replaceFrom old new cs)"

fun runeChunks :: "string \<Rightarrow> string list" where
  "runeChunks [] = []"
| "runeChunks (c # cs) =
     (case DecodeRuneInString (c # cs) of
        (r, w) \<Rightarrow> take w (c # cs) # runeChunks (drop (w - 1) cs))"

definition ReplaceAll :: "string \<Rightarrow> string \<Rightarrow> string \<Rightarrow> string" where
  "ReplaceAll s old new =
     (if old = new then s
      else if old = [] then new @ concat (map (\<lambda>ch. ch @ new) (runeChunks s))
      else replaceFrom old new s)"

section \<open>Dates\<close>

text \<open>
  Every \<^verbatim>\<open>time.Time\<close> of the program is a calendar date at midnight UTC: the zero
  \<^verbatim>\<open>time.Time{}\<close> (1 January of year 1), a result of \<^verbatim>\<open>time.Parse\<close> with the
  layout \<^verbatim>\<open>dateLayout = "2006-01-02"\<close>, or one day after such a date.  A
  \<^verbatim>\<open>Time\<close> is modelled as its year, month and day; the order of the instants is the
  lexicographic order of the triples.
\<close>

type_synonym Time = "int \<times> nat \<times> nat"

definition zeroTime :: Time where
  "zeroTime = (1, 1, 1)"

definition IsZero :: "Time \<Rightarrow> bool" where
  "IsZero t = (t = zeroTime)"

definition After :: "Time \<Rightarrow> Time \<Rightarrow> bool" where
  "After t u = (u < t)"

definition isLeap :: "int \<Rightarrow> bool" where
  "isLeap year = (year mod 4 = 0 \<and> (year mod 100 \<noteq> 0 \<or> year mod 400 = 0))"

definition daysIn :: "nat \<Rightarrow> int \<Rightarrow> nat" where
  "daysIn m year =
     (if m = 2 \<and> isLeap year then 29
      else if m = 2 then 28
      else if m \<in> {4, 6, 9, 11} then 30
      else 31)"

text \<open>\<^verbatim>\<open>t.AddDate(0, 0, 1)\<close> on a calendar date: the next day.\<close>

definition AddDate_0_0_1 :: "Time \<Rightarrow> Time" where
  "AddDate_0_0_1 t =
     (case t of (year, month, day) \<Rightarrow>
        if day < daysIn month year then (year, month, day + 1)
        else if month < 12 then (year, month + 1, 1)
        else (year + 1, 1, 1))"

text \<open>The helpers of \<^verbatim>\<open>time.Parse\<close>: \<^verbatim>\<open>isDigit\<close>, \<^verbatim>\<open>atoi\<close>, \<^verbatim>\<open>getnum\<close>
  and \<^verbatim>\<open>skip\<close> for a prefix of one character that is not a space.\<close>

definition isDigit :: "string \<Rightarrow> nat \<Rightarrow> bool" where
  "isDigit s i = (i < length s \<and> 0x30 \<le> byte (s ! i) \<and> byte (s ! i) \<le> 0x39)"

definition digit :: "char \<Rightarrow> nat" where
  "digit c = byte c - 0x30"

definition atoi :: "string \<Rightarrow> int option" where
  "atoi s =
     (let neg = (s \<noteq> [] \<and> hd s = CHR ''-'');
          s' = (if s \<noteq> [] \<and> (hd s = CHR ''-'' \<or> hd s = CHR ''+'') then tl s else s)
      in if list_all (\<lambda>c. 0x30 \<le> byte c \<and> byte c \<le> 0x39) s'
         then (let x = int (foldl (\<lambda>a c. a * 10 + digit c) 0 s') in Some (if neg then - x else x))
         else None)"

definition getnum :: "string \<Rightarrow> bool \<Rightarrow> (nat \<times> string) option" where
  "getnum s fixed =
     (if \<not> isDigit s 0 then None
      else if \<not> isDigit s 1 then (if fixed then None else Some (digit (s ! 0), drop 1 s))
      else Some (digit (s ! 0) * 10 + digit (s ! 1), drop 2 s))"

definition skip :: "string \<Rightarrow> char \<Rightarrow> string option" where
  "skip v c = (if length v = 0 \<or> v ! 0 \<noteq> c then None else Some (drop 1 v))"

text \<open>\<^verbatim>\<open>time.Parse(dateLayout, v)\<close>: a four-digit year, a two-digit month and a
  two-digit day separated by \<^verbatim>\<open>-\<close>, nothing after them, the month in 1..12 and the
  day within the month.  \<open>None\<close> is the parse error.\<close>

definition Parse :: "string \<Rightarrow> Time option" where
  "Parse v =
     (if length v < 4 \<or> \<not> isDigit v 0 then None
      else case atoi (take 4 v) of
        None \<Rightarrow> None
      | Some year \<Rightarrow>
          (case skip (drop 4 v) (CHR ''-'') of
             None \<Rightarrow> None
           | Some v1 \<Rightarrow>
               (case getnum v1 True of
                  None \<Rightarrow> None
                | Some (month, v2) \<Rightarrow>
                    if month \<le> 0 \<or> 12 < month then None
                    else (case skip v2 (CHR ''-'') of
                       None \<Rightarrow> None
                     | Some v3 \<Rightarrow>
                         (case getnum v3 True of
                            None \<Rightarrow> None
                          | Some (day, v4) \<Rightarrow>
                              if length v4 \<noteq> 0 then None
                              else if day < 1 \<or> day > daysIn month year then None
                              else Some (year, month, day))))))"

text \<open>\<^verbatim>\<open>appendInt\<close> of package \<^verbatim>\<open>time\<close> (the decimal digits of \<open>x\<close>, padded with
  zeros to \<open>width\<close>, after a minus sign when \<open>x\<close> is negative), and
  \<^verbatim>\<open>t.Format(dateLayout)\<close>.\<close>

fun utoa :: "nat \<Rightarrow> string" where
  "utoa u = (if u < 10 then [char_of (0x30 + u)] else utoa (u div 10) @ [char_of (0x30 + u mod 10)])"

declare utoa.simps [simp del]

definition appendInt :: "int \<Rightarrow> nat \<Rightarrow> string" where
  "appendInt x width =
     (let u = nat \<bar>x\<bar>; ds = utoa u
      in (if x < 0 then [CHR ''-''] else []) @ replicate (width - length ds) (CHR ''0'') @ ds)"

definition Format :: "Time \<Rightarrow> string" where
  "Format t =
     (case t of (year, month, day) \<Rightarrow>
        appendInt year 4 @ [CHR ''-''] @ appendInt (int month) 2 @ [CHR ''-'']
          @ appendInt (int day) 2)"

section \<open>Errors\<close>

text \<open>An error of a collaborator (the remote service, the operating system) is its
  message.  The errors that \<^verbatim>\<open>main.go\<close> creates carry the values that its messages
  are formatted from.\<close>

type_synonym ext_error = string

datatype error =
    MissingCredentials
  | ConflictingFlags
  | InvalidDate string string
  | InvalidRange Time Time
  | NothingToDo
  | LoginError ext_error
  | ProvidersError ext_error
  | InspectPathError string ext_error
  | NotADirectory string
  | WalkError string ext_error
  | PromptReadError ext_error
  | ProviderNotFound string
  | InvoicesError ext_error
  | CreateDirectoryError string ext_error
  | DownloadFailed string ext_error

section \<open>Provider resolution\<close>

text \<open>The three loops of \<^verbatim>\<open>resolveProvider\<close> over \<^verbatim>\<open>providers\<close>; each returns
  the first entry that passes its test.\<close>

fun providerEqual :: "string \<Rightarrow> string list \<Rightarrow> string option" where
  "providerEqual input [] = None"
| "providerEqual input (p # providers) =
     (if p = input then Some p else providerEqual input providers)"

fun providerLowerEqual :: "(rune \<Rightarrow> rune) \<Rightarrow> string \<Rightarrow> string list \<Rightarrow> string option" where
  "providerLowerEqual lc inputLower [] = None"
| "providerLowerEqual lc inputLower (p # providers) =
     (if ToLower lc p = inputLower then Some p else providerLowerEqual lc inputLower providers)"

fun providerLowerContains :: "(rune \<Rightarrow> rune) \<Rightarrow> string \<Rightarrow> string list \<Rightarrow> string option" where
  "providerLowerContains lc inputLower [] = None"
| "providerLowerContains lc inputLower (p # providers) =
     (if Contains (ToLower lc p) inputLower then Some p
      else providerLowerContains lc inputLower providers)"

text \<open>\<^verbatim>\<open>resolveProvider\<close>.  \<open>Inr []\<close> is the result \<^verbatim>\<open>("", nil)\<close>: no provider
  filter.\<close>

definition resolveProvider :: "(rune \<Rightarrow> rune) \<Rightarrow> string \<Rightarrow> string list \<Rightarrow> error + string" where
  "resolveProvider lc input providers =
     (if input = [] then Inr []
      else case providerEqual input providers of
        Some p \<Rightarrow> Inr p
      | None \<Rightarrow>
          (let inputLower = ToLower lc (TrimSpace input) in
           if inputLower = [] then Inr []
           else case providerLowerEqual lc inputLower providers of
             Some p \<Rightarrow> Inr p
           | None \<Rightarrow>
               (case providerLowerContains lc inputLower providers of
                  Some p \<Rightarrow> Inr p
                | None \<Rightarrow> Inl (ProviderNotFound input))))"

section \<open>The local archive scan\<close>

text \<open>
  \<^verbatim>\<open>invoiceFilenameDateRegex.FindStringSubmatch\<close> for the expression
  \<^verbatim>\<open>^(\d{4}-\d{2}-\d{2})_.*\.(pdf|xml)$\<close>: the whole match and the two groups, or
  the empty list (\<^verbatim>\<open>nil\<close>) when \<open>s\<close> does not match.  In Go's syntax \<^verbatim>\<open>\d\<close> is
  an ASCII digit, \<^verbatim>\<open>.\<close> is any character but a line feed, and \<^verbatim>\<open>$\<close> is the end
  of the text.  So \<open>s\<close> matches when it is ten bytes of the form \<^verbatim>\<open>dddd-dd-dd\<close>, an
  underscore, a part without line feed, and \<^verbatim>\<open>.pdf\<close> or \<^verbatim>\<open>.xml\<close> at the end.
\<close>

definition FindStringSubmatch :: "string \<Rightarrow> string list" where
  "FindStringSubmatch s =
     (let n = length s; date = take 10 s; mid = take (n - 15) (drop 11 s); ext = drop (n - 3) s
      in if 15 \<le> n
            \<and> isDigit s 0 \<and> isDigit s 1 \<and> isDigit s 2 \<and> isDigit s 3 \<and> s ! 4 = CHR ''-''
            \<and> isDigit s 5 \<and> isDigit s 6 \<and> s ! 7 = CHR ''-''
            \<and> isDigit s 8 \<and> isDigit s 9 \<and> s ! 10 = CHR ''_''
            \<and> list_all (\<lambda>c. c \<noteq> CHR 0x0A) mid
            \<and> s ! (n - 4) = CHR ''.'' \<and> (ext = ''pdf'' \<or> ext = ''xml'')
         then [s, date, ext]
         else [])"

text \<open>
  What \<^verbatim>\<open>filepath.WalkDir\<close> finds at \<^verbatim>\<open>basePath\<close>: a file (anything that is not a
  directory), a directory with its entries in the order of the walk, a directory whose
  listing fails, or a root that cannot be examined.  An entry carries its name, which
  is \<^verbatim>\<open>filepath.Base\<close> of the path the walk passes to its function.  The entries
  that a failing listing may still return are left out: the function of this program
  returns the error of the listing, which stops the walk before them.
\<close>

datatype entry =
    File string
  | Dir string "entry list"
  | ReadDirError string ext_error
  | LstatError string ext_error

text \<open>\<^verbatim>\<open>filepath.WalkDir\<close>, for a function \<open>fn\<close> that never returns
  \<^verbatim>\<open>SkipDir\<close> or \<^verbatim>\<open>SkipAll\<close>.  \<open>fn\<close> receives the base name of the path, whether
  the entry is a directory, the error of the walk, and the state its closure captures;
  \<open>Inl\<close> is the error it returns, which stops the walk.\<close>

fun WalkDir :: "entry \<Rightarrow> (string \<Rightarrow> bool \<Rightarrow> ext_error option \<Rightarrow> 's \<Rightarrow> ext_error + 's) \<Rightarrow> 's
                  \<Rightarrow> ext_error + 's"
  and walkEntries :: "entry list \<Rightarrow> (string \<Rightarrow> bool \<Rightarrow> ext_error option \<Rightarrow> 's \<Rightarrow> ext_error + 's)
                  \<Rightarrow> 's \<Rightarrow> ext_error + 's" where
  "WalkDir (File name) fn s = fn name False None s"
| "WalkDir (Dir name entries) fn s =
     (case fn name True None s of
        Inl err \<Rightarrow> Inl err
      | Inr s' \<Rightarrow> walkEntries entries fn s')"
| "WalkDir (ReadDirError name e) fn s =
     (case fn name True None s of
        Inl err \<Rightarrow> Inl err
      | Inr s' \<Rightarrow> fn name True (Some e) s')"
| "WalkDir (LstatError name e) fn s = fn name False (Some e) s"
| "walkEntries [] fn s = Inr s"
| "walkEntries (d # entries) fn s =
     (case WalkDir d fn s of
        Inl err \<Rightarrow> Inl err
      | Inr s' \<Rightarrow> walkEntries entries fn s')"

text \<open>The function literal that \<^verbatim>\<open>latestInvoiceDate\<close> passes to the walk; the
  state is the pair of its captured variables \<^verbatim>\<open>latest\<close> and \<^verbatim>\<open>found\<close>.\<close>

definition walkFn :: "(rune \<Rightarrow> rune) \<Rightarrow> string \<Rightarrow> bool \<Rightarrow> ext_error option \<Rightarrow> Time \<times> bool
                        \<Rightarrow> ext_error + Time \<times> bool" where
  "walkFn lc base isDir err s =
     (case s of (latest, found) \<Rightarrow>
        (case err of
           Some e \<Rightarrow> Inl e
         | None \<Rightarrow>
             if isDir then Inr (latest, found)
             else let matches = FindStringSubmatch (ToLower lc base) in
               if length matches < 2 then Inr (latest, found)
               else (case Parse (matches ! 1) of
                  None \<Rightarrow> Inr (latest, found)
                | Some date \<Rightarrow>
                    if \<not> found \<or> After date latest then Inr (date, True)
                    else Inr (latest, found))))"

text \<open>The result of \<^verbatim>\<open>os.Stat(basePath)\<close>.\<close>

datatype stat_result = StatNotExist | StatError ext_error | StatOK bool

text \<open>\<^verbatim>\<open>latestInvoiceDate\<close>, given what \<^verbatim>\<open>os.Stat\<close> returns for \<^verbatim>\<open>basePath\<close> and
  what the walk finds there.  \<open>Inr (latest, found)\<close> is the result
  \<^verbatim>\<open>(latest, found, nil)\<close>.\<close>

definition latestInvoiceDate :: "(rune \<Rightarrow> rune) \<Rightarrow> stat_result \<Rightarrow> entry \<Rightarrow> string
                                   \<Rightarrow> error + Time \<times> bool" where
  "latestInvoiceDate lc info tree basePath =
     (case info of
        StatNotExist \<Rightarrow> Inr (zeroTime, False)
      | StatError e \<Rightarrow> Inl (InspectPathError basePath e)
      | StatOK isDir \<Rightarrow>
          if \<not> isDir then Inl (NotADirectory basePath)
          else (case WalkDir tree (walkFn lc) (zeroTime, False) of
             Inl walkErr \<Rightarrow> Inl (WalkError basePath walkErr)
           | Inr (latest, found) \<Rightarrow> Inr (latest, found)))"

section \<open>The program and its collaborators\<close>

text \<open>The \<^verbatim>\<open>config\<close> struct; \<open>cfg_from\<close> and \<open>cfg_to\<close> are its fields \<^verbatim>\<open>from\<close>
  and \<^verbatim>\<open>to\<close>.\<close>

record config =
  username :: string
  password :: string
  invoicePath :: string
  provider :: string
  issuerID :: string
  cfg_from :: string
  cfg_to :: string
  resume :: bool
  redownload :: bool
  listProviders :: bool
  listInvoices :: bool
  downloadPDF :: bool
  downloadXML :: bool

text \<open>Modelled from the spec: the types \<^verbatim>\<open>dijnet.Invoice\<close> and
  \<^verbatim>\<open>dijnet.InvoicesQuery\<close> of the service package, whose declarations are not among
  the sources.  An invoice record is \<^verbatim>\<open>{ provider, issuerID, invoiceID, dateOfIssue }\<close>;
  a query is the five fields that \<^verbatim>\<open>run\<close> sets.  The date of issue is the calendar
  date that \<^verbatim>\<open>DateOfIssue.Format(dateLayout)\<close> prints.\<close>

record Invoice =
  Provider :: string
  IssuerID :: string
  InvoiceID :: string
  DateOfIssue :: Time

record InvoicesQuery =
  query_Provider :: string
  query_IssuerID :: string
  query_From :: Time
  query_To :: Time
  query_Token :: string

text \<open>What the program does to the world, in order: its calls of the service and of
  the file system that change something, its reads of the standard input, and what it
  prints.\<close>

datatype event =
    LoginCall string string
  | ProvidersCall
  | InvoicesCall InvoicesQuery
  | MkdirAllCall string
  | DownloadInvoiceCall Invoice string string
  | StdinReadString
  | Stdout string

text \<open>
  The collaborators of \<^verbatim>\<open>run\<close>: the service (\<^verbatim>\<open>Login\<close>, \<^verbatim>\<open>Providers\<close>,
  \<^verbatim>\<open>Invoices\<close>, \<^verbatim>\<open>DownloadInvoice\<close>), the file system (\<^verbatim>\<open>os.MkdirAll\<close>,
  \<^verbatim>\<open>os.Stat\<close>, the tree that \<^verbatim>\<open>filepath.WalkDir\<close> finds), the standard input (the
  bytes it holds and the error that ends it, \<^verbatim>\<open>io.EOF\<close> as a rule) and the pure
  \<^verbatim>\<open>filepath.Join\<close>.  The answer of a collaborator may depend on everything the
  program did before the call: each one takes the events so far as its first argument.
\<close>

record env =
  Login :: "event list \<Rightarrow> string \<Rightarrow> string \<Rightarrow> ext_error option"
  Providers :: "event list \<Rightarrow> ext_error + string list \<times> string"
  Invoices :: "event list \<Rightarrow> InvoicesQuery \<Rightarrow> ext_error + Invoice list"
  DownloadInvoice :: "event list \<Rightarrow> Invoice \<Rightarrow> string \<Rightarrow> string \<Rightarrow> ext_error option"
  MkdirAll :: "event list \<Rightarrow> string \<Rightarrow> ext_error option"
  Stat :: "event list \<Rightarrow> string \<Rightarrow> stat_result"
  Tree :: "event list \<Rightarrow> string \<Rightarrow> entry"
  Stdin :: "event list \<Rightarrow> string \<times> ext_error"
  Join :: "string list \<Rightarrow> string"

text \<open>\<^verbatim>\<open>bufio.Reader.ReadString\<close> on a fresh reader: the bytes up to and with the
  first delimiter, or all the bytes and the error of the stream when there is none.\<close>

definition ReadString :: "string \<times> ext_error \<Rightarrow> char \<Rightarrow> string \<times> ext_error option" where
  "ReadString stream delim =
     (case stream of (bytes, eof) \<Rightarrow>
        if delim \<in> set bytes then (takeWhile (\<lambda>c. c \<noteq> delim) bytes @ [delim], None)
        else (bytes, Some eof))"

text \<open>What \<^verbatim>\<open>promptResume\<close> prints before it reads the answer.\<close>

definition promptText :: "Time \<Rightarrow> string" where
  "promptText latestDate =
     (let resumeFrom = Format (AddDate_0_0_1 latestDate)
      in ''Existing invoices detected up to '' @ Format latestDate @ ''. Resume from ''
         @ resumeFrom @ ''? [Y/n]: '')"

definition promptResume :: "(rune \<Rightarrow> rune) \<Rightarrow> env \<Rightarrow> Time \<Rightarrow> event list
                              \<Rightarrow> (error + bool) \<times> event list" where
  "promptResume lc env latestDate tr =
     (let tr1 = tr @ [Stdout (promptText latestDate)]
      in case ReadString (Stdin env tr1) (CHR 0x0A) of
        (input, err) \<Rightarrow>
          (case err of
             Some e \<Rightarrow> (Inl (PromptReadError e), tr1 @ [StdinReadString])
           | None \<Rightarrow>
               (let answer = ToLower lc (TrimSpace input)
                in (Inr (answer = [] \<or> answer = ''y'' \<or> answer = ''yes''),
                    tr1 @ [StdinReadString]))))"

definition parseDateFlag :: "string \<Rightarrow> string \<Rightarrow> error + Time" where
  "parseDateFlag name v =
     (if v = [] then Inr zeroTime
      else case Parse v of
        None \<Rightarrow> Inl (InvalidDate name v)
      | Some t \<Rightarrow> Inr t)"

text \<open>The file name of an invoice, without extension (line 170 of \<^verbatim>\<open>main.go\<close>).\<close>

definition invoiceFilename :: "Invoice \<Rightarrow> string" where
  "invoiceFilename invoice =
     Format (DateOfIssue invoice) @ ''_'' @ ReplaceAll (InvoiceID invoice) ''/'' ''_''"

text \<open>The values that one round of the download loop computes for its invoice: the
  line of progress it prints, the directory \<^verbatim>\<open>providerPath\<close>, and the two paths
  \<^verbatim>\<open>pdfPath\<close> and \<^verbatim>\<open>xmlPath\<close>, empty for a format that is switched off.\<close>

definition progressLine :: "nat \<Rightarrow> nat \<Rightarrow> string" where
  "progressLine i n = ''Downloading invoice '' @ utoa (i + 1) @ ''/'' @ utoa n @ [CHR 0x0A]"

definition providerPath :: "env \<Rightarrow> config \<Rightarrow> Invoice \<Rightarrow> string" where
  "providerPath env cfg invoice = Join env [invoicePath cfg, Provider invoice, IssuerID invoice]"

definition pdfPath :: "env \<Rightarrow> config \<Rightarrow> Invoice \<Rightarrow> string" where
  "pdfPath env cfg invoice =
     (if downloadPDF cfg
      then Join env [providerPath env cfg invoice, invoiceFilename invoice @ ''.pdf'']
      else [])"

definition xmlPath :: "env \<Rightarrow> config \<Rightarrow> Invoice \<Rightarrow> string" where
  "xmlPath env cfg invoice =
     (if downloadXML cfg
      then Join env [providerPath env cfg invoice, invoiceFilename invoice @ ''.xml'']
      else [])"

text \<open>The download loop of \<^verbatim>\<open>run\<close> (lines 162 to 185), on the invoices from index
  \<open>i\<close> on; \<open>n\<close> is \<^verbatim>\<open>len(invoices)\<close>.  The result is the error that \<^verbatim>\<open>run\<close>
  returns (\<open>None\<close> for \<^verbatim>\<open>nil\<close>) and the events.\<close>

fun downloadLoop :: "env \<Rightarrow> config \<Rightarrow> nat \<Rightarrow> nat \<Rightarrow> Invoice list \<Rightarrow> event list
                       \<Rightarrow> error option \<times> event list" where
  "downloadLoop env cfg n i [] tr = (None, tr)"
| "downloadLoop env cfg n i (invoice # invoices) tr =
     (let tr1 = tr @ [Stdout (progressLine i n)] in
      case MkdirAll env tr1 (providerPath env cfg invoice) of
        Some err \<Rightarrow>
          (Some (CreateDirectoryError (providerPath env cfg invoice) err),
           tr1 @ [MkdirAllCall (providerPath env cfg invoice)])
      | None \<Rightarrow>
          (let tr2 = tr1 @ [MkdirAllCall (providerPath env cfg invoice)] in
           case DownloadInvoice env tr2 invoice (pdfPath env cfg invoice) (xmlPath env cfg invoice) of
             Some err \<Rightarrow>
               (Some (DownloadFailed (InvoiceID invoice) err),
                tr2 @ [DownloadInvoiceCall invoice (pdfPath env cfg invoice) (xmlPath env cfg invoice)])
           | None \<Rightarrow>
               downloadLoop env cfg n (i + 1) invoices
                 (tr2 @ [DownloadInvoiceCall invoice (pdfPath env cfg invoice)
                           (xmlPath env cfg invoice)])))"

text \<open>Lines 114 to 128 of \<^verbatim>\<open>run\<close>: the range of the query, from the parsed flags
  \<open>from\<close> and \<open>to\<close> and the result of the scan.\<close>

definition effectiveRange :: "(rune \<Rightarrow> rune) \<Rightarrow> env \<Rightarrow> config \<Rightarrow> Time \<Rightarrow> Time \<Rightarrow> Time \<Rightarrow> bool
                                \<Rightarrow> event list \<Rightarrow> (error + Time \<times> Time) \<times> event list" where
  "effectiveRange lc env cfg from to latestLocalInvoiceDate hasLocalInvoices tr =
     (if redownload cfg then (Inr (zeroTime, zeroTime), tr)
      else case (if \<not> resume cfg \<and> hasLocalInvoices
                 then promptResume lc env latestLocalInvoiceDate tr
                 else (Inr (resume cfg), tr)) of
        (Inl err, tr') \<Rightarrow> (Inl err, tr')
      | (Inr shouldResume, tr') \<Rightarrow>
          (Inr (if shouldResume \<and> hasLocalInvoices
                then AddDate_0_0_1 latestLocalInvoiceDate else from, to), tr'))"

text \<open>Lines 110 to 185 of \<^verbatim>\<open>run\<close>: the scan, the range, the provider, the query and
  the downloads.\<close>

definition run_invoices :: "(rune \<Rightarrow> rune) \<Rightarrow> env \<Rightarrow> config \<Rightarrow> Time \<Rightarrow> Time \<Rightarrow> string list
                              \<Rightarrow> string \<Rightarrow> event list \<Rightarrow> error option \<times> event list" where
  "run_invoices lc env cfg from to providers token tr =
     (case latestInvoiceDate lc (Stat env tr (invoicePath cfg)) (Tree env tr (invoicePath cfg))
             (invoicePath cfg) of
        Inl err \<Rightarrow> (Some err, tr)
      | Inr (latestLocalInvoiceDate, hasLocalInvoices) \<Rightarrow>
          (case effectiveRange lc env cfg from to latestLocalInvoiceDate hasLocalInvoices tr of
             (Inl err, tr1) \<Rightarrow> (Some err, tr1)
           | (Inr (from', to'), tr1) \<Rightarrow>
               (case resolveProvider lc (provider cfg) providers of
                  Inl err \<Rightarrow> (Some err, tr1)
                | Inr provider' \<Rightarrow>
                    (let query = \<lparr>query_Provider = provider', query_IssuerID = issuerID cfg,
                                  query_From = from', query_To = to', query_Token = token\<rparr>
                     in case Invoices env tr1 query of
                       Inl err \<Rightarrow> (Some (InvoicesError err), tr1 @ [InvoicesCall query])
                     | Inr invoices \<Rightarrow>
                         (let tr2 = tr1 @ [InvoicesCall query] in
                          if length invoices = 0
                          then (None, tr2 @ [Stdout (''No invoices found for the selected filters''
                                                     @ [CHR 0x0A])])
                          else
                            (let tr3 = (if listInvoices cfg
                                        then tr2 @ map (\<lambda>inv. Stdout
                                               (Format (DateOfIssue inv) @ '' | '' @ Provider inv
                                                @ '' | '' @ IssuerID inv @ '' | '' @ InvoiceID inv
                                                @ [CHR 0x0A])) invoices
                                        else tr2)
                             in if listInvoices cfg \<and> \<not> downloadPDF cfg \<and> \<not> downloadXML cfg
                                then (None, tr3)
                                else downloadLoop env cfg (length invoices) 0 invoices tr3))))))"

text \<open>Lines 91 to 108 of \<^verbatim>\<open>run\<close>: the login and the catalog of providers.\<close>

definition run_service :: "(rune \<Rightarrow> rune) \<Rightarrow> env \<Rightarrow> config \<Rightarrow> Time \<Rightarrow> Time \<Rightarrow> event list
                             \<Rightarrow> error option \<times> event list" where
  "run_service lc env cfg from to tr =
     (case Login env tr (username cfg) (password cfg) of
        Some err \<Rightarrow> (Some (LoginError err), tr @ [LoginCall (username cfg) (password cfg)])
      | None \<Rightarrow>
          (let tr1 = tr @ [LoginCall (username cfg) (password cfg)] in
           case Providers env tr1 of
             Inl err \<Rightarrow> (Some (ProvidersError err), tr1 @ [ProvidersCall])
           | Inr (providers, token) \<Rightarrow>
               (let tr2 = tr1 @ [ProvidersCall];
                    tr3 = (if listProviders cfg
                           then tr2 @ map (\<lambda>p. Stdout (p @ [CHR 0x0A])) providers
                           else tr2)
                in if listProviders cfg \<and> provider cfg = [] then (None, tr3)
                   else run_invoices lc env cfg from to providers token tr3)))"

text \<open>\<^verbatim>\<open>run\<close>: the checks of the configuration (lines 68 to 89), then the rest.
  \<open>tr\<close> holds the events before the call, none as a rule.\<close>

definition run :: "(rune \<Rightarrow> rune) \<Rightarrow> env \<Rightarrow> config \<Rightarrow> event list \<Rightarrow> error option \<times> event list" where
  "run lc env cfg tr =
     (if username cfg = [] \<or> password cfg = [] then (Some MissingCredentials, tr)
      else if resume cfg \<and> redownload cfg then (Some ConflictingFlags, tr)
      else case parseDateFlag ''from'' (cfg_from cfg) of
        Inl err \<Rightarrow> (Some err, tr)
      | Inr from \<Rightarrow>
          (case parseDateFlag ''to'' (cfg_to cfg) of
             Inl err \<Rightarrow> (Some err, tr)
           | Inr to \<Rightarrow>
               if \<not> IsZero from \<and> \<not> IsZero to \<and> After from to
               then (Some (InvalidRange from to), tr)
               else if \<not> downloadPDF cfg \<and> \<not> downloadXML cfg \<and> \<not> listInvoices cfg
                       \<and> \<not> listProviders cfg
               then (Some NothingToDo, tr)
               else run_service lc env cfg from to tr))"

section \<open>The specification's notions\<close>

text \<open>
  The tie-break policy of the provider resolver in the words of the specification:
  (1) a byte-exact match of the input against a catalog entry, (2) a case-insensitive,
  whitespace-trimmed exact match, (3) a case-insensitive substring match (the catalog
  entry contains the trimmed, lower-cased input); in each tier the first entry in
  catalog order; \<^verbatim>\<open>ProviderNotFound\<close> with the original input when no tier matches.
\<close>

definition resolve_tiers :: "(rune \<Rightarrow> rune) \<Rightarrow> string \<Rightarrow> string list \<Rightarrow> error + string" where
  "resolve_tiers lc input catalog =
     (case find (\<lambda>p. p = input) catalog of
        Some p \<Rightarrow> Inr p
      | None \<Rightarrow>
          (case find (\<lambda>p. ToLower lc p = ToLower lc (TrimSpace input)) catalog of
             Some p \<Rightarrow> Inr p
           | None \<Rightarrow>
               (case find (\<lambda>p. Contains (ToLower lc p) (ToLower lc (TrimSpace input))) catalog of
                  Some p \<Rightarrow> Inr p
                | None \<Rightarrow> Inl (ProviderNotFound input))))"

text \<open>
  The date of a file name for the scan: the date that \<^verbatim>\<open>time.Parse\<close> reads from the
  first group when the lower-cased name matches \<^verbatim>\<open>invoiceFilenameDateRegex\<close>, and
  \<open>None\<close> when the name does not match or the date does not parse.
\<close>

definition invoiceDate :: "(rune \<Rightarrow> rune) \<Rightarrow> string \<Rightarrow> Time option" where
  "invoiceDate lc name =
     (let matches = FindStringSubmatch (ToLower lc name)
      in if length matches < 2 then None else Parse (matches ! 1))"

text \<open>The names of the files of a tree, at any depth, and the errors that the walk meets
  in it, both in the order of the walk.\<close>

fun fileNames :: "entry \<Rightarrow> string list" where
  "fileNames (File name) = [name]"
| "fileNames (Dir name entries) = concat (map fileNames entries)"
| "fileNames (ReadDirError name e) = []"
| "fileNames (LstatError name e) = []"

fun walkErrors :: "entry \<Rightarrow> ext_error list" where
  "walkErrors (File name) = []"
| "walkErrors (Dir name entries) = concat (map walkErrors entries)"
| "walkErrors (ReadDirError name e) = [e]"
| "walkErrors (LstatError name e) = [e]"

text \<open>The dates of the files of a tree that have one.\<close>

definition invoiceDates :: "(rune \<Rightarrow> rune) \<Rightarrow> entry \<Rightarrow> Time list" where
  "invoiceDates lc tree = List.map_filter (invoiceDate lc) (fileNames tree)"

text \<open>Adding a file to a tree: \<open>addFileAt path new tree\<close> goes down from the root
  through the directories at the positions of \<open>path\<close> but the last, and puts the file
  \<open>new\<close> at the last position among the entries there.  A path that leads to no
  directory leaves the tree as it is.\<close>

fun addFileAt :: "nat list \<Rightarrow> string \<Rightarrow> entry \<Rightarrow> entry" where
  "addFileAt [k] new (Dir name entries) = Dir name (take k entries @ File new # drop k entries)"
| "addFileAt (k # j # path) new (Dir name entries) =
     (if k < length entries
      then Dir name (entries[k := addFileAt (j # path) new (entries ! k)])
      else Dir name entries)"
| "addFileAt path new tree = tree"

text \<open>One step of the scan on a file name, as the walk function does it.\<close>

definition scanStep :: "(rune \<Rightarrow> rune) \<Rightarrow> Time \<times> bool \<Rightarrow> string \<Rightarrow> Time \<times> bool" where
  "scanStep lc s name =
     (case s of (latest, found) \<Rightarrow>
        (case invoiceDate lc name of
           None \<Rightarrow> (latest, found)
         | Some date \<Rightarrow> if \<not> found \<or> After date latest then (date, True) else (latest, found)))"

text \<open>An ASCII digit, \<^verbatim>\<open>0\<close> to \<^verbatim>\<open>9\<close>.\<close>

definition isDecimal :: "char \<Rightarrow> bool" where
  "isDecimal c = (0x30 \<le> byte c \<and> byte c \<le> 0x39)"

text \<open>The ISO form \<^verbatim>\<open>YYYY-MM-DD\<close> of a date, digit by digit, and the replacement of
  every \<^verbatim>\<open>/\<close> of an identifier by \<^verbatim>\<open>_\<close>, byte by byte.\<close>

definition decimalDigit :: "nat \<Rightarrow> char" where
  "decimalDigit k = char_of (0x30 + k mod 10)"

definition isoDate :: "Time \<Rightarrow> string" where
  "isoDate t =
     (case t of (year, month, day) \<Rightarrow>
        [decimalDigit (nat year div 1000), decimalDigit (nat year div 100),
         decimalDigit (nat year div 10), decimalDigit (nat year), CHR ''-'',
         decimalDigit (month div 10), decimalDigit month, CHR ''-'',
         decimalDigit (day div 10), decimalDigit day])"

definition slashesToUnderscores :: "string \<Rightarrow> string" where
  "slashesToUnderscores s = map (\<lambda>c. if c = CHR ''/'' then CHR ''_'' else c) s"

text \<open>
  The dates of the archive in the words of the specification.  A calendar date is a
  date of a year from 0 to 9999 with its month in 1..12 and its day within the month.
  A file name has the date \<open>t\<close> when, case-insensitively (that is, after lower-casing),
  it has the anchored form \<^verbatim>\<open>YYYY-MM-DD_<suffix>.(pdf|xml)\<close>, where \<^verbatim>\<open>YYYY-MM-DD\<close> is
  the ISO form of the calendar date \<open>t\<close> and the suffix is any string.
\<close>

definition calendarDate :: "Time \<Rightarrow> bool" where
  "calendarDate t =
     (case t of (year, month, day) \<Rightarrow>
        0 \<le> year \<and> year \<le> 9999 \<and> 1 \<le> month \<and> month \<le> 12
        \<and> 1 \<le> day \<and> day \<le> daysIn month year)"

definition hasInvoiceDate :: "(rune \<Rightarrow> rune) \<Rightarrow> string \<Rightarrow> Time \<Rightarrow> bool" where
  "hasInvoiceDate lc name t =
     (calendarDate t
      \<and> (\<exists>mid ext. ToLower lc name = isoDate t @ ''_'' @ mid @ ''.'' @ ext
             \<and> (ext = ''pdf'' \<or> ext = ''xml'')))"

section \<open>Sample values\<close>

text \<open>The Unicode lower-case table on the Latin-1 supplement (the capital letters
  \<open>U+00C0\<close> to \<open>U+00DE\<close>, but for the multiplication sign \<open>U+00D7\<close>, are 32 below
  their small letters), and the identity beyond it.  It instantiates the parameter
  \<open>lc\<close> where a theorem is evaluated on a concrete input.\<close>

definition latin1_lower :: "rune \<Rightarrow> rune" where
  "latin1_lower r = (if 0xC0 \<le> r \<and> r \<le> 0xDE \<and> r \<noteq> 0xD7 then r + 0x20 else r)"

text \<open>The catalog entry \<^verbatim>\<open>"Electricite Co"\<close> of the specification's example,
  written with E acute (\<open>U+00C9\<close>, the bytes \<open>C3 89\<close>) and e acute (\<open>U+00E9\<close>, the
  bytes \<open>C3 A9\<close>).\<close>

definition Electricite_Co :: string where
  "Electricite_Co = [CHR 0xC3, CHR 0x89] @ ''lectricit'' @ [CHR 0xC3, CHR 0xA9] @ '' Co''"

text \<open>An archive: two invoices of one issuer, deep in the tree, and at the top a
  note, a file whose date is not a calendar date, and an invoice with its extension in
  capitals.\<close>

definition sample_tree :: entry where
  "sample_tree =
     Dir ''invoices''
       [Dir ''acme'' [Dir ''42'' [File ''2024-02-10_foo.pdf'', File ''2023-12-31_a.XML'']],
        File ''notes.txt'',
        File ''2024-02-30_bad.pdf'',
        File ''2024-03-05_2024_001.PDF'']"

text \<open>A configuration, three invoices of one issuer, and collaborators: every call of
  the service succeeds but the download of the invoice \<^verbatim>\<open>2024/002\<close>; the archive is
  \<open>sample_tree\<close>; the operator types \<^verbatim>\<open>Yes\<close> between spaces and closes the line
  with carriage return and line feed; and the join of path elements puts a \<^verbatim>\<open>/\<close>
  between them (what \<^verbatim>\<open>filepath.Join\<close> does to clean, non-empty elements).\<close>

definition sample_config :: config where
  "sample_config =
     \<lparr>username = ''user'', password = ''secret'', invoicePath = ''invoices'',
      provider = '''', issuerID = '''', cfg_from = ''2024-01-01'', cfg_to = '''',
      resume = False, redownload = False, listProviders = False, listInvoices = False,
      downloadPDF = True, downloadXML = False\<rparr>"

definition sample_invoice :: "string \<Rightarrow> Time \<Rightarrow> Invoice" where
  "sample_invoice ident date =
     \<lparr>Provider = ''acme'', IssuerID = ''42'', InvoiceID = ident, DateOfIssue = date\<rparr>"

definition sample_invoices :: "Invoice list" where
  "sample_invoices =
     [sample_invoice ''2024/001'' (2024, 3, 5), sample_invoice ''2024/002'' (2024, 3, 6),
      sample_invoice ''2024/003'' (2024, 3, 7)]"

fun joinSlash :: "string list \<Rightarrow> string" where
  "joinSlash [] = []"
| "joinSlash [x] = x"
| "joinSlash (x # y # zs) = x @ ''/'' @ joinSlash (y # zs)"

definition sample_env :: env where
  "sample_env =
     \<lparr>Login = (\<lambda>tr u p. None),
      Providers = (\<lambda>tr. Inr ([''acme'', ''Water Corp''], ''token'')),
      Invoices = (\<lambda>tr q. Inr sample_invoices),
      DownloadInvoice = (\<lambda>tr invoice pdf xml.
         if InvoiceID invoice = ''2024/002'' then Some ''timeout'' else None),
      MkdirAll = (\<lambda>tr path. None),
      Stat = (\<lambda>tr path. StatOK True),
      Tree = (\<lambda>tr path. sample_tree),
      Stdin = (\<lambda>tr. ('' Yes '' @ [CHR 0x0D, CHR 0x0A] @ ''more'', ''EOF'')),
      Join = joinSlash\<rparr>"

section \<open>Properties of the library functions\<close>

lemma AppendRune_length: "length (AppendRune r) \<le> 4"
  by (simp add: AppendRune_def encode3_def)

lemma length_le_4_cases:
  assumes "length (A :: 'a list) \<le> 4"
  obtains "A = []" | a where "A = [a]" | a b where "A = [a, b]"
  | a b c where "A = [a, b, c]" | a b c d where "A = [a, b, c, d]"
  using assms by (auto simp: le_Suc_eq length_Suc_conv numeral_eq_Suc)

section \<open>The provider resolver on the specification's example\<close>

lemma runes_Electricite_Co:
  "runes Electricite_Co =
     [0xC9, 0x6C, 0x65, 0x63, 0x74, 0x72, 0x69, 0x63, 0x69, 0x74, 0xE9, 0x20, 0x43, 0x6F]"
  unfolding Electricite_Co_def by code_simp

lemma AppendRune_letters:
  "AppendRune 0x6C = ''l''" "AppendRune 0x65 = ''e''" "AppendRune 0x63 = ''c''"
  "AppendRune 0x74 = ''t''" "AppendRune 0x72 = ''r''" "AppendRune 0x69 = ''i''"
  "AppendRune 0x20 = '' ''" "AppendRune 0x6F = ''o''"
  by code_simp+

text \<open>Whatever the case table does to the two accented letters, the lower-cased entry
  is their images around the lower-cased ASCII letters.\<close>

lemma ToLower_Electricite_Co:
  "ToLower lc Electricite_Co =
     AppendRune (lc 0xC9) @ ''lectricit'' @ AppendRune (lc 0xE9) @ '' co''"
proof -
  have "\<not> list_all (\<lambda>c. byte c < 0x80) Electricite_Co"
    unfolding Electricite_Co_def by simp
  then have "ToLower lc Electricite_Co = Map (unicode_ToLower lc) Electricite_Co"
    by (simp add: ToLower_def Let_def)
  also have "\<dots> = AppendRune (lc 0xC9) @ ''lectricit'' @ AppendRune (lc 0xE9) @ '' co''"
    by (simp add: Map_def runes_Electricite_Co unicode_ToLower_def AppendRune_letters)
  finally show ?thesis .
qed

lemma no_water_corp_in_Electricite_Co:
  assumes "length A \<le> 4" "length B \<le> 4"
  shows "\<not> Contains (A @ ''lectricit'' @ B @ '' co'') ''water corp''"
  using assms(1)
proof (cases A rule: length_le_4_cases)
  case 1
  show ?thesis using assms(2) by (cases B rule: length_le_4_cases) (simp_all add: 1)
next
  case 2
  show ?thesis using assms(2) by (cases B rule: length_le_4_cases) (simp_all add: 2)
next
  case 3
  show ?thesis using assms(2) by (cases B rule: length_le_4_cases) (simp_all add: 3)
next
  case 4
  show ?thesis using assms(2) by (cases B rule: length_le_4_cases) (simp_all add: 4)
next
  case 5
  show ?thesis using assms(2) by (cases B rule: length_le_4_cases) (simp_all add: 5)
qed

lemma Electricite_Co_not_water_corp:
  "A @ ''lectricit'' @ B @ '' co'' \<noteq> ''water corp''"
proof
  assume "A @ ''lectricit'' @ B @ '' co'' = ''water corp''"
  then have "length (A @ ''lectricit'' @ B @ '' co'') = length ''water corp''"
    by simp
  then show False
    by simp
qed

lemma TrimSpace_water_corp: "TrimSpace ''water corp'' = ''water corp''"
  by code_simp

lemma ToLower_water_corp:
  "ToLower lc ''water corp'' = ''water corp''"
  "ToLower lc ''water-corp'' = ''water-corp''"
  "ToLower lc ''Water Corp Admin'' = ''water corp admin''"
  by (simp_all add: ToLower_def char_of_def bit_Suc_0_iff)

lemma tiers_water_corp:
  "providerEqual ''water corp'' [Electricite_Co, ''water-corp'', ''Water Corp Admin''] = None"
  "providerLowerEqual lc ''water corp''
        [Electricite_Co, ''water-corp'', ''Water Corp Admin''] = None"
  "providerLowerContains lc ''water corp''
        [Electricite_Co, ''water-corp'', ''Water Corp Admin''] = Some ''Water Corp Admin''"
proof -
  have t2: "ToLower lc Electricite_Co \<noteq> ''water corp''"
    unfolding ToLower_Electricite_Co by (rule Electricite_Co_not_water_corp)
  have t3: "\<not> Contains (ToLower lc Electricite_Co) ''water corp''"
    unfolding ToLower_Electricite_Co
    by (rule no_water_corp_in_Electricite_Co) (rule AppendRune_length)+
  show "providerEqual ''water corp'' [Electricite_Co, ''water-corp'', ''Water Corp Admin''] = None"
    by (simp add: Electricite_Co_def)
  show "providerLowerEqual lc ''water corp''
        [Electricite_Co, ''water-corp'', ''Water Corp Admin''] = None"
    using t2 by (simp add: ToLower_water_corp)
  show "providerLowerContains lc ''water corp''
        [Electricite_Co, ''water-corp'', ''Water Corp Admin''] = Some ''Water Corp Admin''"
    using t3 by (simp add: ToLower_water_corp)
qed

lemma resolveProvider_water_corp_result:
  "resolveProvider lc ''water corp'' [Electricite_Co, ''water-corp'', ''Water Corp Admin'']
     = Inr ''Water Corp Admin''"
proof -
  have l: "ToLower lc (TrimSpace ''water corp'') = ''water corp''"
    by (simp only: TrimSpace_water_corp ToLower_water_corp)
  show ?thesis
    unfolding resolveProvider_def Let_def l tiers_water_corp by simp
qed

text \<open>
  Claim C1, as amended.  For the catalog
  \<^verbatim>\<open>["Electricite Co", "water-corp", "Water Corp Admin"]\<close> (the first entry with its
  accents) and the input \<^verbatim>\<open>"water corp"\<close>, no entry is byte-equal to the input and no
  entry is equal to it after lower-casing; the lower-cased \<^verbatim>\<open>"water-corp"\<close> does not
  contain \<^verbatim>\<open>"water corp"\<close> (a hyphen is not a space), so the first entry of the
  substring tier is \<^verbatim>\<open>"Water Corp Admin"\<close>, and \<open>resolveProvider\<close> returns it.  This
  holds for every case table \<open>lc\<close>.
\<close>

theorem resolveProvider_water_corp:
  "providerEqual ''water corp'' [Electricite_Co, ''water-corp'', ''Water Corp Admin''] = None
   \<and> providerLowerEqual lc (ToLower lc (TrimSpace ''water corp''))
        [Electricite_Co, ''water-corp'', ''Water Corp Admin''] = None
   \<and> \<not> Contains (ToLower lc ''water-corp'') (ToLower lc (TrimSpace ''water corp''))
   \<and> resolveProvider lc ''water corp'' [Electricite_Co, ''water-corp'', ''Water Corp Admin'']
        = Inr ''Water Corp Admin''"
proof -
  have l: "ToLower lc (TrimSpace ''water corp'') = ''water corp''"
    by (simp only: TrimSpace_water_corp ToLower_water_corp)
  show ?thesis
    unfolding l resolveProvider_water_corp_result
    using tiers_water_corp by (simp add: ToLower_water_corp)
qed

theorem resolveProvider_water_corp_witness:
  "resolveProvider latin1_lower ''water corp''
     [Electricite_Co, ''water-corp'', ''Water Corp Admin''] = Inr ''Water Corp Admin''"
  using resolveProvider_water_corp [of latin1_lower] by simp

text \<open>Claim C1 as it is stated fails: the result is not \<^verbatim>\<open>"water-corp"\<close>.\<close>

theorem resolveProvider_water_corp_counterexample:
  "resolveProvider latin1_lower ''water corp''
     [Electricite_Co, ''water-corp'', ''Water Corp Admin''] \<noteq> Inr ''water-corp''"
  unfolding resolveProvider_water_corp_result by simp

section \<open>The provider resolver in general\<close>

lemma providerEqual_find: "providerEqual input ps = find (\<lambda>p. p = input) ps"
  by (induction ps) auto

lemma providerLowerEqual_find:
  "providerLowerEqual lc l ps = find (\<lambda>p. ToLower lc p = l) ps"
  by (induction ps) auto

lemma providerLowerContains_find:
  "providerLowerContains lc l ps = find (\<lambda>p. Contains (ToLower lc p) l) ps"
  by (induction ps) auto

lemma find_equal: "find (\<lambda>p. p = x) ps = (if x \<in> set ps then Some x else None)"
  by (induction ps) auto

lemma AppendRune_not_Nil: "AppendRune r \<noteq> []"
  by (simp add: AppendRune_def encode3_def)

text \<open>Lower-casing never empties a string, so the trimmed, lower-cased input is empty
  exactly when the input is white space only.\<close>

lemma ToLower_Nil_iff: "ToLower lc s = [] \<longleftrightarrow> s = []"
proof (cases s)
  case Nil
  then show ?thesis
    by (simp add: ToLower_def Map_def)
next
  case (Cons c cs)
  obtain r w where "DecodeRuneInString (c # cs) = (r, w)"
    by (cases "DecodeRuneInString (c # cs)")
  then show ?thesis
    using Cons by (auto simp: ToLower_def Map_def Let_def AppendRune_not_Nil)
qed

lemma TrimSpace_Nil: "TrimSpace [] = []"
  by (simp add: TrimSpace.simps TrimSpace_stop.simps)

lemma resolve_samples:
  "TrimSpace '' acme '' = ''acme''"
  "TrimSpace ''Acme'' = ''Acme''"
  "TrimSpace '' '' = []"
  "resolve_tiers latin1_lower '' acme '' [''Acme Water'', ''ACME''] = Inr ''ACME''"
  "resolve_tiers latin1_lower '' '' [''acme''] = Inr ''acme''"
  "resolve_tiers latin1_lower '' '' [] = Inl (ProviderNotFound '' '')"
  "resolveProvider latin1_lower '' '' [''acme''] = Inr []"
  "resolveProvider latin1_lower '' '' [] = Inr []"
  by code_simp+

text \<open>
  Claim C3, as amended.  For every input whose whitespace-trimmed form is not empty, and
  every catalog, \<open>resolveProvider\<close> is the three tiers in strict order, the first match
  winning: the first entry byte-equal to the input; else the first entry whose
  lower-cased form equals the trimmed, lower-cased input; else the first entry whose
  lower-cased form contains it; else the not-found error with the original input.  For
  every non-empty input, an entry byte-equal to it is the result, whatever the looser
  tiers would match.  (A non-empty input of white space only that is byte-equal to no
  entry resolves to the empty name, "no filter", and not through tier 3 or to the
  not-found error.)
\<close>

theorem resolveProvider_tiers:
  "(TrimSpace input \<noteq> [] \<longrightarrow> resolveProvider lc input catalog = resolve_tiers lc input catalog)
   \<and> (input \<noteq> [] \<and> input \<in> set catalog \<longrightarrow> resolveProvider lc input catalog = Inr input)
   \<and> (input \<noteq> [] \<and> input \<notin> set catalog \<and> TrimSpace input = []
        \<longrightarrow> resolveProvider lc input catalog = Inr [])"
proof (intro conjI impI)
  assume t: "TrimSpace input \<noteq> []"
  then have "input \<noteq> []"
    using TrimSpace_Nil by auto
  then show "resolveProvider lc input catalog = resolve_tiers lc input catalog"
    using t
    by (simp add: resolveProvider_def resolve_tiers_def Let_def providerEqual_find
        providerLowerEqual_find providerLowerContains_find ToLower_Nil_iff
        split: option.split)
next
  assume "input \<noteq> [] \<and> input \<in> set catalog"
  then show "resolveProvider lc input catalog = Inr input"
    by (simp add: resolveProvider_def providerEqual_find find_equal)
next
  assume "input \<noteq> [] \<and> input \<notin> set catalog \<and> TrimSpace input = []"
  then show "resolveProvider lc input catalog = Inr []"
    by (simp add: resolveProvider_def providerEqual_find find_equal ToLower_Nil_iff)
qed

theorem resolveProvider_tiers_witness:
  "resolveProvider latin1_lower '' acme '' [''Acme Water'', ''ACME''] = Inr ''ACME''
   \<and> resolveProvider latin1_lower ''Acme'' [''acme'', ''Acme Water'', ''Acme''] = Inr ''Acme''
   \<and> resolveProvider latin1_lower '' '' [''acme''] = Inr []"
  using resolveProvider_tiers [of "'' acme ''" latin1_lower "[''Acme Water'', ''ACME'']"]
    resolveProvider_tiers [of "''Acme''" latin1_lower "[''acme'', ''Acme Water'', ''Acme'']"]
    resolveProvider_tiers [of "'' ''" latin1_lower "[''acme'']"]
  by (auto simp: resolve_samples)

text \<open>Claim C3 as it is stated fails on the non-empty input \<^verbatim>\<open>" "\<close>: tier 3 would
  return the entry \<^verbatim>\<open>"acme"\<close>, which contains the empty trimmed input, and with an
  empty catalog no tier matches; \<open>resolveProvider\<close> returns the empty name both times.\<close>

theorem resolveProvider_tiers_counterexample:
  "resolveProvider latin1_lower '' '' [''acme''] = Inr []
   \<and> resolve_tiers latin1_lower '' '' [''acme''] = Inr ''acme''
   \<and> resolveProvider latin1_lower '' '' [] = Inr []
   \<and> resolve_tiers latin1_lower '' '' [] = Inl (ProviderNotFound '' '')"
  by (simp add: resolve_samples)

section \<open>The dates of file names and the pattern of the specification\<close>

lemma four_digits:
  fixes a b c e :: nat
  assumes "a < 10" "b < 10" "c < 10" "e < 10"
  shows "(((a * 10 + b) * 10 + c) * 10 + e) div 1000 mod 10 = a"
    and "(((a * 10 + b) * 10 + c) * 10 + e) div 100 mod 10 = b"
    and "(((a * 10 + b) * 10 + c) * 10 + e) div 10 mod 10 = c"
    and "(((a * 10 + b) * 10 + c) * 10 + e) mod 10 = e"
    and "(((a * 10 + b) * 10 + c) * 10 + e) \<le> 9999"
proof -
  define N where "N = ((a * 10 + b) * 10 + c) * 10 + e"
  have k: "(x * 10 + y) div 10 = x" "(x * 10 + y) mod 10 = y" if "y < 10" for x y :: nat
    using that by simp_all
  have d1: "N div 10 = (a * 10 + b) * 10 + c"
    unfolding N_def using assms by (simp only: k)
  have d2: "N div 100 = a * 10 + b"
  proof -
    have "N div 100 = N div 10 div 10"
      by (simp add: div_mult2_eq [symmetric])
    then show ?thesis
      using assms by (simp only: d1 k)
  qed
  have d3: "N div 1000 = a"
  proof -
    have "N div 1000 = N div 100 div 10"
      by (simp add: div_mult2_eq [symmetric])
    then show ?thesis
      using assms by (simp only: d2 k)
  qed
  show "(((a * 10 + b) * 10 + c) * 10 + e) div 1000 mod 10 = a"
    using d3 assms by (simp add: N_def)
  show "(((a * 10 + b) * 10 + c) * 10 + e) div 100 mod 10 = b"
    using d2 assms unfolding N_def by (simp only: k)
  show "(((a * 10 + b) * 10 + c) * 10 + e) div 10 mod 10 = c"
    using d1 assms unfolding N_def by (simp only: k)
  show "(((a * 10 + b) * 10 + c) * 10 + e) mod 10 = e"
    using assms by (simp only: k)
  show "(((a * 10 + b) * 10 + c) * 10 + e) \<le> 9999"
    using assms by simp
qed

lemma two_digits:
  fixes a b :: nat
  assumes "a < 10" "b < 10"
  shows "(a * 10 + b) div 10 mod 10 = a" and "(a * 10 + b) mod 10 = b"
  using assms by simp_all

lemma recompose2: "(m div 10 mod 10) * 10 + m mod 10 = m" if "m < 100" for m :: nat
  using that by simp

lemma recompose4:
  fixes n :: nat
  assumes "n \<le> 9999"
  shows "(((n div 1000 mod 10) * 10 + n div 100 mod 10) * 10 + n div 10 mod 10) * 10 + n mod 10 = n"
proof -
  have 1: "n div 1000 mod 10 = n div 1000"
    using assms by simp
  have 2: "n div 1000 = n div 100 div 10" "n div 100 = n div 10 div 10"
    by (simp_all add: div_mult2_eq [symmetric])
  have 3: "k div 10 * 10 + k mod 10 = k" for k :: nat
    by simp
  show ?thesis
    unfolding 1 unfolding 2(1) 3 unfolding 2(2) 3 by (simp only: 3)
qed

lemma decimalDigit_digit:
  assumes "isDecimal c"
  shows "decimalDigit (digit c) = c"
proof -
  have "byte c - 0x30 < 10" and "0x30 \<le> byte c"
    using assms by (auto simp: isDecimal_def)
  then show ?thesis
    by (simp add: decimalDigit_def digit_def)
qed

lemma digit_decimalDigit: "digit (decimalDigit k) = k mod 10"
  by (simp add: decimalDigit_def digit_def)

lemma isDecimal_decimalDigit: "isDecimal (decimalDigit k)"
  by (simp add: decimalDigit_def isDecimal_def)

lemma digit_less: "isDecimal c \<Longrightarrow> digit c < 10"
  by (auto simp: digit_def isDecimal_def)

lemma decimalDigit_mod: "decimalDigit (k mod 10) = decimalDigit k"
  by (simp add: decimalDigit_def)

lemma atoi_4: "isDecimal c0 \<Longrightarrow> atoi [c0, c1, c2, c3] =
     (if isDecimal c1 \<and> isDecimal c2 \<and> isDecimal c3
      then Some (int (((digit c0 * 10 + digit c1) * 10 + digit c2) * 10 + digit c3)) else None)"
  apply (simp add: atoi_def isDecimal_def Let_def)
  apply (auto simp: digit_def)
  done

lemma getnum_2: "getnum (x # y # rest) True =
     (if isDecimal x \<and> isDecimal y then Some (digit x * 10 + digit y, rest) else None)"
  by (simp add: getnum_def isDigit_def isDecimal_def)

lemma skip_Cons: "skip (x # rest) c = (if x = c then Some rest else None)"
  by (simp add: skip_def)

lemma isDigit_Cons_0: "isDigit (c # cs) 0 = isDecimal c"
  by (simp add: isDigit_def isDecimal_def)

lemma Parse_length: "Parse v = Some t \<Longrightarrow> length v = 10"
  by (auto simp: Parse_def skip_def getnum_def isDigit_def split: if_splits option.splits)

lemma list_of_length_10:
  assumes "length v = 10"
  obtains c0 c1 c2 c3 c4 c5 c6 c7 c8 c9 where "v = [c0, c1, c2, c3, c4, c5, c6, c7, c8, c9]"
  using assms by (auto simp: numeral_eq_Suc length_Suc_conv)

lemma Parse_list_Some:
  assumes "isDecimal c0" "isDecimal c1" "isDecimal c2" "isDecimal c3" "c4 = CHR ''-''"
    "isDecimal c5" "isDecimal c6" "c7 = CHR ''-''" "isDecimal c8" "isDecimal c9"
    "1 \<le> digit c5 * 10 + digit c6" "digit c5 * 10 + digit c6 \<le> 12"
    "1 \<le> digit c8 * 10 + digit c9"
    "digit c8 * 10 + digit c9 \<le> daysIn (digit c5 * 10 + digit c6)
              (int (((digit c0 * 10 + digit c1) * 10 + digit c2) * 10 + digit c3))"
  shows "Parse [c0, c1, c2, c3, c4, c5, c6, c7, c8, c9] =
      Some (int (((digit c0 * 10 + digit c1) * 10 + digit c2) * 10 + digit c3),
                 digit c5 * 10 + digit c6, digit c8 * 10 + digit c9)"
  using assms unfolding Parse_def
  apply (simp add: isDigit_Cons_0 atoi_4 getnum_2 skip_Cons not_less not_le)
  apply arith
  done

lemma Parse_list_conds:
  assumes "Parse [c0, c1, c2, c3, c4, c5, c6, c7, c8, c9] = Some (year, month, day)"
  shows "isDecimal c0 \<and> isDecimal c1 \<and> isDecimal c2 \<and> isDecimal c3 \<and> c4 = CHR ''-''
      \<and> isDecimal c5 \<and> isDecimal c6 \<and> c7 = CHR ''-'' \<and> isDecimal c8 \<and> isDecimal c9
      \<and> year = int (((digit c0 * 10 + digit c1) * 10 + digit c2) * 10 + digit c3)
      \<and> month = digit c5 * 10 + digit c6 \<and> day = digit c8 * 10 + digit c9
      \<and> 1 \<le> month \<and> month \<le> 12 \<and> 1 \<le> day \<and> day \<le> daysIn month year"
proof -
  have c0: "isDecimal c0"
    using assms unfolding Parse_def by (simp add: isDigit_Cons_0 split: if_splits)
  show ?thesis
    using assms c0 unfolding Parse_def
    by (auto simp: isDigit_Cons_0 atoi_4 getnum_2 skip_Cons split: option.splits if_splits)
qed

lemma daysIn_le_31: "daysIn m y \<le> 31"
  by (simp add: daysIn_def)

text \<open>\<^verbatim>\<open>time.Parse\<close> with the layout of dates accepts exactly the ISO forms of the
  calendar dates of the years 0 to 9999.\<close>

lemma Parse_Some_iff:
  "Parse v = Some (year, month, day) \<longleftrightarrow>
     v = isoDate (year, month, day) \<and> 0 \<le> year \<and> year \<le> 9999
     \<and> 1 \<le> month \<and> month \<le> 12 \<and> 1 \<le> day \<and> day \<le> daysIn month year"
proof
  assume p: "Parse v = Some (year, month, day)"
  obtain c0 c1 c2 c3 c4 c5 c6 c7 c8 c9 where v: "v = [c0, c1, c2, c3, c4, c5, c6, c7, c8, c9]"
    using Parse_length [OF p] by (rule list_of_length_10)
  define N where "N = ((digit c0 * 10 + digit c1) * 10 + digit c2) * 10 + digit c3"
  note c = Parse_list_conds [OF p [unfolded v]]
  have d: "digit c0 < 10" "digit c1 < 10" "digit c2 < 10" "digit c3 < 10"
    "digit c5 < 10" "digit c6 < 10" "digit c8 < 10" "digit c9 < 10"
    using c by (simp_all add: digit_less)
  have y: "nat year = N" "year = int N"
    using c by (simp_all add: N_def)
  have f: "decimalDigit (N div 1000) = c0" "decimalDigit (N div 100) = c1"
    "decimalDigit (N div 10) = c2" "decimalDigit N = c3"
    using c d four_digits(1-4) [of "digit c0" "digit c1" "digit c2" "digit c3"]
    unfolding N_def [symmetric]
    by (metis decimalDigit_mod decimalDigit_digit)+
  have g: "decimalDigit (month div 10) = c5" "decimalDigit month = c6"
    "decimalDigit (day div 10) = c8" "decimalDigit day = c9"
    using c d two_digits [of "digit c5" "digit c6"] two_digits [of "digit c8" "digit c9"]
    by (metis decimalDigit_mod decimalDigit_digit)+
  have dash: "c4 = CHR ''-''" "c7 = CHR ''-''"
    using c by simp_all
  have "isoDate (year, month, day) =
      [decimalDigit (N div 1000), decimalDigit (N div 100), decimalDigit (N div 10),
       decimalDigit N, CHR ''-'', decimalDigit (month div 10), decimalDigit month, CHR ''-'',
       decimalDigit (day div 10), decimalDigit day]"
    by (simp add: isoDate_def y(1))
  then have "v = isoDate (year, month, day)"
    by (simp only: v f g dash)
  moreover have "0 \<le> year \<and> year \<le> 9999"
    using d four_digits(5) [of "digit c0" "digit c1" "digit c2" "digit c3"]
    by (simp add: y N_def)
  moreover have "1 \<le> month \<and> month \<le> 12 \<and> 1 \<le> day \<and> day \<le> daysIn month year"
    using c by blast
  ultimately show "v = isoDate (year, month, day) \<and> 0 \<le> year \<and> year \<le> 9999
     \<and> 1 \<le> month \<and> month \<le> 12 \<and> 1 \<le> day \<and> day \<le> daysIn month year"
    by blast
next
  assume h: "v = isoDate (year, month, day) \<and> 0 \<le> year \<and> year \<le> 9999
     \<and> 1 \<le> month \<and> month \<le> 12 \<and> 1 \<le> day \<and> day \<le> daysIn month year"
  define n where "n = nat year"
  have n: "n \<le> 9999" "year = int n"
    using h unfolding n_def by linarith+
  have m: "month < 100" "day < 100"
    using h daysIn_le_31 [of month year] by simp_all
  have b: "1 \<le> month" "month \<le> 12" "1 \<le> day" "day \<le> daysIn month (int n)"
    using h n(2) by simp_all
  have "Parse [decimalDigit (n div 1000), decimalDigit (n div 100), decimalDigit (n div 10),
      decimalDigit n, CHR ''-'', decimalDigit (month div 10), decimalDigit month, CHR ''-'',
      decimalDigit (day div 10), decimalDigit day] = Some (int n, month, day)"
    apply (subst Parse_list_Some)
    apply (simp_all only: isDecimal_decimalDigit digit_decimalDigit recompose2 [OF m(1)]
        recompose2 [OF m(2)] recompose4 [OF n(1)] b simp_thms)
    done
  then have "Parse (isoDate (year, month, day)) = Some (int (nat year), month, day)"
    by (simp add: isoDate_def n_def)
  then show "Parse v = Some (year, month, day)"
    using h by simp
qed

lemma length_isoDate: "length (isoDate t) = 10"
  by (cases t) (simp add: isoDate_def)

lemma split_name:
  assumes "15 \<le> length s"
  shows "s = take 10 s @ s ! 10 # take (length s - 15) (drop 11 s)
             @ s ! (length s - 4) # drop (length s - 3) s"
proof -
  have "drop 10 s = s ! 10 # drop 11 s"
    using assms Cons_nth_drop_Suc [of 10 s] by simp
  moreover have "drop (length s - 15) (drop 11 s) = drop (length s - 4) s"
    using assms by simp
  moreover have "drop (length s - 4) s = s ! (length s - 4) # drop (length s - 3) s"
  proof -
    have "Suc (length s - 4) = length s - 3"
      using assms by simp
    then show ?thesis
      using assms Cons_nth_drop_Suc [of "length s - 4" s] by simp
  qed
  ultimately show ?thesis
    by (metis append_take_drop_id)
qed

lemma FindStringSubmatch_conds:
  assumes "2 \<le> length (FindStringSubmatch s)"
  shows "15 \<le> length s" "s ! 10 = CHR ''_''" "s ! (length s - 4) = CHR ''.''"
    "list_all (\<lambda>c. c \<noteq> CHR 0x0A) (take (length s - 15) (drop 11 s))"
    "drop (length s - 3) s = ''pdf'' \<or> drop (length s - 3) s = ''xml''"
    "FindStringSubmatch s ! 1 = take 10 s"
proof -
  have "FindStringSubmatch s \<noteq> []"
    using assms by auto
  then have c: "15 \<le> length s \<and> s ! 10 = CHR ''_'' \<and> s ! (length s - 4) = CHR ''.''
    \<and> list_all (\<lambda>c. c \<noteq> CHR 0x0A) (take (length s - 15) (drop 11 s))
    \<and> (drop (length s - 3) s = ''pdf'' \<or> drop (length s - 3) s = ''xml'')"
    unfolding FindStringSubmatch_def Let_def by (meson)
  then show "15 \<le> length s" "s ! 10 = CHR ''_''" "s ! (length s - 4) = CHR ''.''"
    "list_all (\<lambda>c. c \<noteq> CHR 0x0A) (take (length s - 15) (drop 11 s))"
    "drop (length s - 3) s = ''pdf'' \<or> drop (length s - 3) s = ''xml''"
    by blast+
  show "FindStringSubmatch s ! 1 = take 10 s"
    using \<open>FindStringSubmatch s \<noteq> []\<close>
    unfolding FindStringSubmatch_def Let_def by (auto split: if_splits)
qed

lemma FindStringSubmatch_matches:
  assumes "2 \<le> length (FindStringSubmatch s)"
  shows "\<exists>mid ext. s = take 10 s @ ''_'' @ mid @ ''.'' @ ext
           \<and> FindStringSubmatch s ! 1 = take 10 s
           \<and> CHR 0x0A \<notin> set mid \<and> (ext = ''pdf'' \<or> ext = ''xml'')"
proof -
  note c = FindStringSubmatch_conds [OF assms]
  have "s = take 10 s @ ''_'' @ take (length s - 15) (drop 11 s) @ ''.''
            @ drop (length s - 3) s"
    using split_name [OF c(1)] c(2,3) by simp
  moreover have "CHR 0x0A \<notin> set (take (length s - 15) (drop 11 s))"
    using c(4) by (auto simp: list_all_iff)
  ultimately show ?thesis
    using c(5,6) by blast
qed

lemma name_parts:
  fixes D mid ext :: "'a list" and c e :: 'a
  assumes "length D = 10" and "length ext = 3"
  defines "s \<equiv> D @ c # mid @ e # ext"
  shows "length s = 15 + length mid" "take 10 s = D" "s ! 10 = c"
    "take (length mid) (drop 11 s) = mid" "s ! (11 + length mid) = e"
    "drop (12 + length mid) s = ext" "i < 10 \<Longrightarrow> s ! i = D ! i"
proof -
  show "length s = 15 + length mid"
    using assms by simp
  show "take 10 s = D" "s ! 10 = c" "i < 10 \<Longrightarrow> s ! i = D ! i"
    using assms(1,2) by (simp_all add: s_def nth_append)
  have d: "drop 11 s = mid @ e # ext"
    using assms(1,2) by (simp add: s_def)
  show "take (length mid) (drop 11 s) = mid"
    unfolding d by simp
  have "11 \<le> length s"
    using assms(1,2) by (simp add: s_def)
  then have "s ! (11 + length mid) = (drop 11 s) ! length mid"
    by simp
  then show "s ! (11 + length mid) = e"
    unfolding d by simp
  have "drop (12 + length mid) s = drop (Suc (length mid)) (drop 11 s)"
    by simp
  then show "drop (12 + length mid) s = ext"
    unfolding d by simp
qed

lemma isDigit_isoDate:
  "i \<in> {0, 1, 2, 3, 5, 6, 8, 9} \<Longrightarrow>
     0x30 \<le> byte (isoDate t ! i) \<and> byte (isoDate t ! i) \<le> 0x39"
  by (cases t) (auto simp: isoDate_def decimalDigit_def)

lemma dashes_isoDate: "isoDate t ! 4 = CHR ''-''" "isoDate t ! 7 = CHR ''-''"
  by (cases t, simp add: isoDate_def)+

lemma FindStringSubmatch_isoDate:
  assumes "CHR 0x0A \<notin> set mid" and "ext = ''pdf'' \<or> ext = ''xml''"
  shows "FindStringSubmatch (isoDate t @ ''_'' @ mid @ ''.'' @ ext)
     = [isoDate t @ ''_'' @ mid @ ''.'' @ ext, isoDate t, ext]"
proof -
  define s where "s = isoDate t @ CHR ''_'' # mid @ CHR ''.'' # ext"
  have e: "length ext = 3"
    using assms(2) by auto
  note p = name_parts [where D = "isoDate t" and ext = ext and c = "CHR ''_''" and mid = mid
      and e = "CHR ''.''", OF length_isoDate e, folded s_def]
  have l: "list_all (\<lambda>c. c \<noteq> CHR 0x0A) mid"
    using assms(1) by (auto simp: list_all_iff)
  have dg: "isDigit s i" if "i \<in> {0, 1, 2, 3, 5, 6, 8, 9}" for i
  proof -
    have "i < 10"
      using that by auto
    then show ?thesis
      using isDigit_isoDate [where t = t, OF that] p(1) by (simp add: isDigit_def p(7))
  qed
  have "FindStringSubmatch s = [s, isoDate t, ext]"
    unfolding FindStringSubmatch_def Let_def
    using assms(2) l dg dashes_isoDate [of t]
    by (simp add: p)
  then show ?thesis
    by (simp add: s_def)
qed

text \<open>The program reads a date from a file name exactly when the lower-cased name is
  the ISO form of a calendar date of a year from 0 to 9999, an underscore, a middle part
  without line feed, and \<^verbatim>\<open>.pdf\<close> or \<^verbatim>\<open>.xml\<close>; the date it reads is that date.\<close>

lemma invoiceDate_Some_iff:
  "invoiceDate lc name = Some (year, month, day) \<longleftrightarrow>
     (\<exists>mid ext. ToLower lc name = isoDate (year, month, day) @ ''_'' @ mid @ ''.'' @ ext
         \<and> CHR 0x0A \<notin> set mid \<and> (ext = ''pdf'' \<or> ext = ''xml''))
     \<and> 0 \<le> year \<and> year \<le> 9999 \<and> 1 \<le> month \<and> month \<le> 12
     \<and> 1 \<le> day \<and> day \<le> daysIn month year"
proof
  assume a: "invoiceDate lc name = Some (year, month, day)"
  then have m: "2 \<le> length (FindStringSubmatch (ToLower lc name))"
    and p: "Parse (FindStringSubmatch (ToLower lc name) ! 1) = Some (year, month, day)"
    by (auto simp: invoiceDate_def Let_def split: if_splits)
  obtain mid ext where s: "ToLower lc name = take 10 (ToLower lc name) @ ''_'' @ mid @ ''.'' @ ext"
    "FindStringSubmatch (ToLower lc name) ! 1 = take 10 (ToLower lc name)"
    "CHR 0x0A \<notin> set mid" "ext = ''pdf'' \<or> ext = ''xml''"
    using FindStringSubmatch_matches [OF m] by blast
  have i: "take 10 (ToLower lc name) = isoDate (year, month, day) \<and> 0 \<le> year \<and> year \<le> 9999
     \<and> 1 \<le> month \<and> month \<le> 12 \<and> 1 \<le> day \<and> day \<le> daysIn month year"
    using p unfolding s(2) Parse_Some_iff .
  then have "ToLower lc name = isoDate (year, month, day) @ ''_'' @ mid @ ''.'' @ ext"
    using s(1) by simp
  then show "(\<exists>mid ext. ToLower lc name = isoDate (year, month, day) @ ''_'' @ mid @ ''.'' @ ext
         \<and> CHR 0x0A \<notin> set mid \<and> (ext = ''pdf'' \<or> ext = ''xml''))
     \<and> 0 \<le> year \<and> year \<le> 9999 \<and> 1 \<le> month \<and> month \<le> 12
     \<and> 1 \<le> day \<and> day \<le> daysIn month year"
    using s(3,4) i by blast
next
  assume h: "(\<exists>mid ext. ToLower lc name = isoDate (year, month, day) @ ''_'' @ mid @ ''.'' @ ext
         \<and> CHR 0x0A \<notin> set mid \<and> (ext = ''pdf'' \<or> ext = ''xml''))
     \<and> 0 \<le> year \<and> year \<le> 9999 \<and> 1 \<le> month \<and> month \<le> 12
     \<and> 1 \<le> day \<and> day \<le> daysIn month year"
  then obtain mid ext where
    s: "ToLower lc name = isoDate (year, month, day) @ ''_'' @ mid @ ''.'' @ ext"
    "CHR 0x0A \<notin> set mid" "ext = ''pdf'' \<or> ext = ''xml''"
    by blast
  have "Parse (isoDate (year, month, day)) = Some (year, month, day)"
    using h by (simp add: Parse_Some_iff)
  then show "invoiceDate lc name = Some (year, month, day)"
    unfolding invoiceDate_def s(1) FindStringSubmatch_isoDate [OF s(2,3)]
    by (simp add: Let_def)
qed

section \<open>The scan returns the latest date\<close>

text \<open>The walk function on a file is one step of the scan; on a directory it changes
  nothing; on an error of the walk it returns the error.\<close>

lemma walkFn_file: "walkFn lc name False None s = Inr (scanStep lc s name)"
  by (cases s) (simp add: walkFn_def scanStep_def invoiceDate_def Let_def split: option.split)

lemma walkFn_dir: "walkFn lc name True None s = Inr s"
  by (cases s) (simp add: walkFn_def)

lemma walkFn_err: "walkFn lc name isDir (Some e) s = Inl e"
  by (cases s) (simp add: walkFn_def)

lemma WalkDir_walkFn:
  "WalkDir t (walkFn lc) s =
     (case walkErrors t of [] \<Rightarrow> Inr (foldl (scanStep lc) s (fileNames t)) | e # _ \<Rightarrow> Inl e)"
  "walkEntries ts (walkFn lc) s =
     (case concat (map walkErrors ts) of
        [] \<Rightarrow> Inr (foldl (scanStep lc) s (concat (map fileNames ts)))
      | e # _ \<Rightarrow> Inl e)"
proof (induction t "walkFn lc" s and ts "walkFn lc" s rule: WalkDir_walkEntries.induct)
  case (1 name s)
  then show ?case by (simp add: walkFn_file)
next
  case (2 name entries s)
  then show ?case by (simp add: walkFn_dir cong: list.case_cong)
next
  case (3 name e s)
  then show ?case by (simp add: walkFn_dir walkFn_err)
next
  case (4 name e s)
  then show ?case by (simp add: walkFn_err)
next
  case (5 s)
  then show ?case by simp
next
  case (6 d entries s)
  show ?case
  proof (cases "walkErrors d")
    case Nil
    then show ?thesis using 6 by (simp cong: list.case_cong)
  next
    case (Cons e es)
    then show ?thesis using 6 by simp
  qed
qed

lemma foldl_scanStep:
  "foldl (scanStep lc) (l, f) names =
     (let D = List.map_filter (invoiceDate lc) names
      in if D = [] then (l, f) else (if f then max l (Max (set D)) else Max (set D), True))"
proof (induction names arbitrary: l f)
  case Nil
  then show ?case by simp
next
  case (Cons n names)
  show ?case
  proof (cases "invoiceDate lc n")
    case None
    then show ?thesis
      using Cons by (simp add: scanStep_def)
  next
    case (Some d)
    then show ?thesis
      using Cons
      by (auto simp: scanStep_def After_def Let_def max_def
          intro: antisym)
  qed
qed

lemma scanStep_None: "invoiceDate lc n = None \<Longrightarrow> scanStep lc s n = s"
  by (cases s) (simp add: scanStep_def)

lemma concat_map_update:
  assumes "k < length es"
  shows "concat (map f (es[k := e])) = concat (map f (take k es)) @ f e @ concat (map f (drop (Suc k) es))"
  using assms by (simp add: upd_conv_take_nth_drop)

lemma concat_map_nth:
  assumes "k < length es"
  shows "concat (map f es) = concat (map f (take k es)) @ f (es ! k) @ concat (map f (drop (Suc k) es))"
  using assms by (metis concat_map_update list_update_id)

lemma walkErrors_addFileAt: "walkErrors (addFileAt path new t) = walkErrors t"
proof (induction path new t rule: addFileAt.induct)
  case (1 k new name entries)
  have "concat (map walkErrors (take k entries @ drop k entries)) = concat (map walkErrors entries)"
    by simp
  then show ?case by (simp del: append_take_drop_id)
next
  case (2 k j path new name entries)
  then show ?case
    using concat_map_update [of k entries walkErrors] concat_map_nth [of k entries walkErrors]
    by auto
qed simp_all

lemma foldl_fileNames_addFileAt:
  "invoiceDate lc new = None \<Longrightarrow>
   foldl (scanStep lc) s (fileNames (addFileAt path new t)) = foldl (scanStep lc) s (fileNames t)"
proof (induction path new t arbitrary: s rule: addFileAt.induct)
  case (1 k new name entries)
  have "foldl (scanStep lc) s (concat (map fileNames (take k entries @ drop k entries)))
        = foldl (scanStep lc) s (concat (map fileNames entries))"
    by simp
  then show ?case
    using 1 by (simp add: scanStep_None del: append_take_drop_id)
next
  case (2 k j path new name entries)
  then show ?case
    using concat_map_update [of k entries fileNames] concat_map_nth [of k entries fileNames]
    by auto
qed simp_all


lemma WalkDir_addFileAt:
  "invoiceDate lc new = None \<Longrightarrow>
   WalkDir (addFileAt path new tree) (walkFn lc) s = WalkDir tree (walkFn lc) s"
  by (simp add: WalkDir_walkFn walkErrors_addFileAt foldl_fileNames_addFileAt
      cong: list.case_cong)

lemma set_map_filter: "set (List.map_filter f xs) = {y. \<exists>x \<in> set xs. f x = Some y}"
  by (induction xs) (auto split: option.splits)

text \<open>The ISO form of a date holds no line feed.\<close>

lemma decimalDigit_not_line_feed: "decimalDigit k \<noteq> CHR 0x0A"
proof
  assume "decimalDigit k = CHR 0x0A"
  then have "byte (decimalDigit k) = (byte (CHR 0x0A) :: nat)"
    by simp
  then show False
    by (simp add: decimalDigit_def)
qed

lemma isoDate_no_line_feed: "CHR 0x0A \<notin> set (isoDate t)"
  by (cases t) (simp add: isoDate_def decimalDigit_not_line_feed [symmetric])

text \<open>The program reads a date from a name exactly when the name has that date in the
  words of the specification and its lower-cased form holds no line feed: the dot of the
  regular expression matches every character but the line feed.\<close>

lemma invoiceDate_hasInvoiceDate:
  "invoiceDate lc name = Some t
     \<longleftrightarrow> hasInvoiceDate lc name t \<and> CHR 0x0A \<notin> set (ToLower lc name)"
proof (cases t)
  case (fields year month day)
  show ?thesis
  proof
    assume "invoiceDate lc name = Some t"
    then obtain mid ext where
      s: "ToLower lc name = isoDate t @ ''_'' @ mid @ ''.'' @ ext"
        "CHR 0x0A \<notin> set mid" "ext = ''pdf'' \<or> ext = ''xml''"
      and c: "calendarDate t"
      unfolding fields invoiceDate_Some_iff calendarDate_def by auto
    have "CHR 0x0A \<notin> set (ToLower lc name)"
      unfolding s(1) using s(2,3) isoDate_no_line_feed [of t] by auto
    then show "hasInvoiceDate lc name t \<and> CHR 0x0A \<notin> set (ToLower lc name)"
      using s c unfolding hasInvoiceDate_def by blast
  next
    assume h: "hasInvoiceDate lc name t \<and> CHR 0x0A \<notin> set (ToLower lc name)"
    then obtain mid ext where
      s: "ToLower lc name = isoDate t @ ''_'' @ mid @ ''.'' @ ext"
        "ext = ''pdf'' \<or> ext = ''xml''"
      and c: "calendarDate t"
      unfolding hasInvoiceDate_def by blast
    have "CHR 0x0A \<notin> set mid"
      using h unfolding s(1) by simp
    then show "invoiceDate lc name = Some t"
      using s c unfolding fields invoiceDate_Some_iff calendarDate_def by auto
  qed
qed

lemma dates_of_tree:
  "{t. \<exists>name \<in> set (fileNames tree).
         CHR 0x0A \<notin> set (ToLower lc name) \<and> hasInvoiceDate lc name t}
     = set (invoiceDates lc tree)"
  by (auto simp: invoiceDate_hasInvoiceDate invoiceDates_def set_map_filter)

lemma scan_samples:
  "walkErrors sample_tree = []"
  "invoiceDates latin1_lower sample_tree = [(2024, 2, 10), (2023, 12, 31), (2024, 3, 5)]"
  "invoiceDate latin1_lower ''README.md'' = None"
  "ToLower latin1_lower ''README.md'' = ''readme.md''"
  by code_simp+

text \<open>
  What the scan returns.  For every tree that the walk reads without error, whatever
  its nesting, \<open>latestInvoiceDate\<close> returns the greatest of the dates that the file
  names without line feed have, and \<open>found\<close> is true exactly when one such name has a
  date; with no such name the result is the zero time and \<open>False\<close>.  Two trees with the
  same set of file names have the same result, however the files are nested.  Adding a
  file whose name has no date, anywhere in the tree, never changes the result (whatever
  \<^verbatim>\<open>os.Stat\<close> returns, and also when the walk meets an error).  On an archive without
  a line feed in its file names this is the scan of the specification.
\<close>

lemma latestInvoiceDate_scan:
  "(walkErrors tree = [] \<longrightarrow>
      latestInvoiceDate lc (StatOK True) tree basePath =
        Inr (if {t. \<exists>name \<in> set (fileNames tree).
                    CHR 0x0A \<notin> set (ToLower lc name) \<and> hasInvoiceDate lc name t} = {}
             then (zeroTime, False)
             else (Max {t. \<exists>name \<in> set (fileNames tree).
                    CHR 0x0A \<notin> set (ToLower lc name) \<and> hasInvoiceDate lc name t}, True)))
   \<and> (walkErrors tree = [] \<and> walkErrors tree' = []
        \<and> set (fileNames tree) = set (fileNames tree') \<longrightarrow>
      latestInvoiceDate lc (StatOK True) tree basePath
        = latestInvoiceDate lc (StatOK True) tree' basePath)
   \<and> ((\<forall>t. \<not> hasInvoiceDate lc new t) \<longrightarrow>
      latestInvoiceDate lc info (addFileAt path new tree) basePath
        = latestInvoiceDate lc info tree basePath)"
proof (intro conjI impI)
  have scan: "latestInvoiceDate lc (StatOK True) t basePath =
        Inr (if invoiceDates lc t = [] then (zeroTime, False)
             else (Max (set (invoiceDates lc t)), True))" if "walkErrors t = []" for t
    using that
    by (simp add: latestInvoiceDate_def WalkDir_walkFn foldl_scanStep invoiceDates_def Let_def)
  show "latestInvoiceDate lc (StatOK True) tree basePath =
        Inr (if {t. \<exists>name \<in> set (fileNames tree).
                    CHR 0x0A \<notin> set (ToLower lc name) \<and> hasInvoiceDate lc name t} = {}
             then (zeroTime, False)
             else (Max {t. \<exists>name \<in> set (fileNames tree).
                    CHR 0x0A \<notin> set (ToLower lc name) \<and> hasInvoiceDate lc name t}, True))"
    if "walkErrors tree = []"
    unfolding dates_of_tree using that by (simp add: scan)
  show "latestInvoiceDate lc (StatOK True) tree basePath
        = latestInvoiceDate lc (StatOK True) tree' basePath"
    if h: "walkErrors tree = [] \<and> walkErrors tree' = []
        \<and> set (fileNames tree) = set (fileNames tree')"
  proof -
    have "set (invoiceDates lc tree) = set (invoiceDates lc tree')"
      using h by (simp add: invoiceDates_def set_map_filter)
    moreover from this have "invoiceDates lc tree = [] \<longleftrightarrow> invoiceDates lc tree' = []"
      by (metis set_empty)
    ultimately show ?thesis
      using h by (simp add: scan)
  qed
  show "latestInvoiceDate lc info (addFileAt path new tree) basePath
        = latestInvoiceDate lc info tree basePath" if "\<forall>t. \<not> hasInvoiceDate lc new t"
  proof -
    have "invoiceDate lc new = None"
      using that by (cases "invoiceDate lc new") (auto simp: invoiceDate_hasInvoiceDate)
    then show ?thesis
      by (simp only: latestInvoiceDate_def WalkDir_addFileAt)
  qed
qed

lemma latestInvoiceDate_scan_sample:
  "latestInvoiceDate latin1_lower (StatOK True) sample_tree ''invoices''
     = Inr ((2024, 3, 5), True)
   \<and> latestInvoiceDate latin1_lower (StatOK True)
         (addFileAt [0, 0, 1] ''README.md'' sample_tree) ''invoices''
     = Inr ((2024, 3, 5), True)"
proof -
  have "\<not> hasInvoiceDate latin1_lower ''README.md'' t" for t
    using invoiceDate_hasInvoiceDate [of latin1_lower "''README.md''" t]
    by (simp add: scan_samples)
  then show ?thesis
    using latestInvoiceDate_scan [where tree = sample_tree and tree' = sample_tree
      and lc = latin1_lower and basePath = "''invoices''" and new = "''README.md''"
      and info = "StatOK True" and path = "[0, 0, 1]", unfolded dates_of_tree]
    by (simp add: scan_samples)
qed

lemma line_feed_samples:
  "ToLower latin1_lower (''2030-01-01_a'' @ CHR 0x0A # ''b.pdf'')
     = isoDate (2030, 1, 1) @ ''_'' @ (''a'' @ CHR 0x0A # ''b'') @ ''.'' @ ''pdf''"
  "calendarDate (2030, 1, 1)"
  "Parse ''2030-01-01'' = Some (2030, 1, 1)"
  "latestInvoiceDate latin1_lower (StatOK True)
     (Dir ''invoices'' [File (''2030-01-01_a'' @ CHR 0x0A # ''b.pdf'')]) ''invoices''
     = Inr (zeroTime, False)"
  "latestInvoiceDate latin1_lower (StatOK True)
     (Dir ''invoices'' [File ''2024-01-01_a.pdf'', File (''2030-01-01_a'' @ CHR 0x0A # ''b.pdf'')])
     ''invoices'' = Inr ((2024, 1, 1), True)"
  "invoiceFilename \<lparr>Provider = ''acme'', IssuerID = ''42'', InvoiceID = ''a'' @ CHR 0x0A # ''b'',
       DateOfIssue = (2030, 1, 1)\<rparr> @ ''.pdf'' = ''2030-01-01_a'' @ CHR 0x0A # ''b.pdf''"
  by code_simp+

text \<open>
  Claim C2 fails on a file name with a line feed in its suffix.  The name
  \<^verbatim>\<open>2030-01-01_a\<close>, line feed, \<^verbatim>\<open>b.pdf\<close> has the form
  \<^verbatim>\<open>YYYY-MM-DD_<suffix>.(pdf|xml)\<close> of the specification, with a date that parses, and
  it is the name under which the download loop stores the invoice of that date whose
  identifier is \<^verbatim>\<open>a\<close>, line feed, \<^verbatim>\<open>b\<close>.  The scan skips it: alone in the archive
  it gives \<open>found = False\<close> and the zero time, and beside \<^verbatim>\<open>2024-01-01_a.pdf\<close> the
  latest date is 2024-01-01 and not 2030-01-01.
\<close>

theorem latestInvoiceDate_line_feed:
  "hasInvoiceDate latin1_lower (''2030-01-01_a'' @ CHR 0x0A # ''b.pdf'') (2030, 1, 1)
   \<and> Parse ''2030-01-01'' = Some (2030, 1, 1)
   \<and> invoiceFilename \<lparr>Provider = ''acme'', IssuerID = ''42'', InvoiceID = ''a'' @ CHR 0x0A # ''b'',
         DateOfIssue = (2030, 1, 1)\<rparr> @ ''.pdf'' = ''2030-01-01_a'' @ CHR 0x0A # ''b.pdf''
   \<and> latestInvoiceDate latin1_lower (StatOK True)
        (Dir ''invoices'' [File (''2030-01-01_a'' @ CHR 0x0A # ''b.pdf'')]) ''invoices''
      = Inr (zeroTime, False)
   \<and> latestInvoiceDate latin1_lower (StatOK True)
        (Dir ''invoices''
           [File ''2024-01-01_a.pdf'', File (''2030-01-01_a'' @ CHR 0x0A # ''b.pdf'')])
        ''invoices''
      = Inr ((2024, 1, 1), True)"
proof -
  have "hasInvoiceDate latin1_lower (''2030-01-01_a'' @ CHR 0x0A # ''b.pdf'') (2030, 1, 1)"
    unfolding hasInvoiceDate_def using line_feed_samples(1,2) by blast
  then show ?thesis
    using line_feed_samples(3-6) by simp
qed

section \<open>The file name of an invoice\<close>

lemma replaceFrom_slash:
  "replaceFrom ''/'' ''_'' s = slashesToUnderscores s"
  by (induction s) (auto simp: slashesToUnderscores_def)

lemma ReplaceAll_slash: "ReplaceAll s ''/'' ''_'' = slashesToUnderscores s"
  by (simp add: ReplaceAll_def replaceFrom_slash)

lemma utoa_digits:
  "u < 10 \<Longrightarrow> utoa u = [decimalDigit u]"
  "10 \<le> u \<Longrightarrow> u < 100 \<Longrightarrow> utoa u = [decimalDigit (u div 10), decimalDigit u]"
  "100 \<le> u \<Longrightarrow> u < 1000 \<Longrightarrow>
     utoa u = [decimalDigit (u div 100), decimalDigit (u div 10), decimalDigit u]"
  "1000 \<le> u \<Longrightarrow> u < 10000 \<Longrightarrow>
     utoa u = [decimalDigit (u div 1000), decimalDigit (u div 100), decimalDigit (u div 10),
               decimalDigit u]"
proof -
  show 1: "utoa u = [decimalDigit u]" if "u < 10" for u
    using that by (subst utoa.simps) (simp add: decimalDigit_def)
  show 2: "utoa u = [decimalDigit (u div 10), decimalDigit u]" if "10 \<le> u" "u < 100" for u
    using that 1 [of "u div 10"] by (subst utoa.simps) (simp add: decimalDigit_def)
  show 3: "utoa u = [decimalDigit (u div 100), decimalDigit (u div 10), decimalDigit u]"
    if "100 \<le> u" "u < 1000" for u
    using that 2 [of "u div 10"]
    by (subst utoa.simps) (simp add: decimalDigit_def div_mult2_eq [symmetric])
  show "utoa u = [decimalDigit (u div 1000), decimalDigit (u div 100), decimalDigit (u div 10),
               decimalDigit u]" if "1000 \<le> u" "u < 10000"
    using that 3 [of "u div 10"]
    by (subst utoa.simps) (simp add: decimalDigit_def div_mult2_eq [symmetric])
qed

lemma decimalDigit_0: "decimalDigit 0 = CHR ''0''"
  by (simp add: decimalDigit_def char_of_def bit_Suc_0_iff)

lemma appendInt_2: "k < 100 \<Longrightarrow> appendInt (int k) 2 = [decimalDigit (k div 10), decimalDigit k]"
  by (cases "k < 10") (simp_all add: appendInt_def utoa_digits decimalDigit_0)

lemma appendInt_4:
  assumes "0 \<le> y" "y \<le> 9999"
  shows "appendInt y 4 = [decimalDigit (nat y div 1000), decimalDigit (nat y div 100),
                          decimalDigit (nat y div 10), decimalDigit (nat y)]"
proof -
  consider "nat y < 10" | "10 \<le> nat y" "nat y < 100" | "100 \<le> nat y" "nat y < 1000"
    | "1000 \<le> nat y" "nat y < 10000"
    using assms by linarith
  then show ?thesis
    using assms
    by cases (simp_all add: appendInt_def utoa_digits decimalDigit_0 numeral_3_eq_3 numeral_2_eq_2)
qed

lemma Format_isoDate:
  assumes "0 \<le> year" "year \<le> 9999" "month \<le> 12" "day \<le> 31"
  shows "Format (year, month, day) = isoDate (year, month, day)"
  using assms by (simp add: Format_def isoDate_def appendInt_4 appendInt_2)

lemma filename_samples:
  "isoDate (2024, 3, 5) = ''2024-03-05''"
  "slashesToUnderscores ''2024/001'' = ''2024_001''"
  by code_simp+

text \<open>
  Claim C9.  For every invoice record the file name without extension is the formatted
  date of issue, an underscore, and the invoice identifier with every \<^verbatim>\<open>/\<close> replaced
  by \<^verbatim>\<open>_\<close>; for every date of a year from 0 to 9999 the formatted date is the ISO
  form \<^verbatim>\<open>YYYY-MM-DD\<close>.  The identifier \<^verbatim>\<open>2024/001\<close> with the date of issue
  5 March 2024 gives \<^verbatim>\<open>2024-03-05_2024_001\<close>.
\<close>

theorem invoiceFilename_iso:
  "invoiceFilename invoice
     = Format (DateOfIssue invoice) @ ''_'' @ slashesToUnderscores (InvoiceID invoice)
   \<and> (DateOfIssue invoice = (year, month, day) \<and> 0 \<le> year \<and> year \<le> 9999
        \<and> 1 \<le> month \<and> month \<le> 12 \<and> 1 \<le> day \<and> day \<le> 31 \<longrightarrow>
      invoiceFilename invoice
        = isoDate (DateOfIssue invoice) @ ''_'' @ slashesToUnderscores (InvoiceID invoice))
   \<and> invoiceFilename \<lparr>Provider = p, IssuerID = i, InvoiceID = ''2024/001'',
         DateOfIssue = (2024, 3, 5)\<rparr> = ''2024-03-05_2024_001''"
proof (intro conjI impI)
  show a: "invoiceFilename inv
     = Format (DateOfIssue inv) @ ''_'' @ slashesToUnderscores (InvoiceID inv)" for inv
    by (simp add: invoiceFilename_def ReplaceAll_slash)
  show "invoiceFilename invoice
        = isoDate (DateOfIssue invoice) @ ''_'' @ slashesToUnderscores (InvoiceID invoice)"
    if "DateOfIssue invoice = (year, month, day) \<and> 0 \<le> year \<and> year \<le> 9999
        \<and> 1 \<le> month \<and> month \<le> 12 \<and> 1 \<le> day \<and> day \<le> 31"
    using that by (simp add: a Format_isoDate)
  show "invoiceFilename \<lparr>Provider = p, IssuerID = i, InvoiceID = ''2024/001'',
         DateOfIssue = (2024, 3, 5)\<rparr> = ''2024-03-05_2024_001''"
    by (simp add: a Format_isoDate filename_samples)
qed

theorem invoiceFilename_iso_witness:
  "invoiceFilename \<lparr>Provider = ''acme'', IssuerID = ''42'', InvoiceID = ''A/7/b'',
       DateOfIssue = (1999, 12, 31)\<rparr> = ''1999-12-31_A_7_b''"
  using invoiceFilename_iso [where invoice = "\<lparr>Provider = ''acme'', IssuerID = ''42'',
        InvoiceID = ''A/7/b'', DateOfIssue = (1999, 12, 31)\<rparr>"
      and year = 1999 and month = 12 and day = 31, THEN conjunct2, THEN conjunct1]
  by (simp add: isoDate_def decimalDigit_def slashesToUnderscores_def char_of_def bit_Suc_0_iff)

section \<open>The download loop\<close>

text \<open>When the loop gets through a list, it goes on with the rest as if it started
  there.\<close>

lemma downloadLoop_append:
  "downloadLoop env cfg n i before tr = (None, tr1) \<Longrightarrow>
   downloadLoop env cfg n i (before @ rest) tr
     = downloadLoop env cfg n (i + length before) rest tr1"
proof (induction before arbitrary: i tr)
  case Nil
  then show ?case by simp
next
  case (Cons invoice before)
  then show ?case
    by (auto simp: Let_def split: option.splits)
qed

lemma download_samples:
  "downloadLoop sample_env sample_config 3 0 [sample_invoice ''2024/001'' (2024, 3, 5)] []
     = (None,
        [Stdout (progressLine 0 3),
         MkdirAllCall (providerPath sample_env sample_config
           (sample_invoice ''2024/001'' (2024, 3, 5))),
         DownloadInvoiceCall (sample_invoice ''2024/001'' (2024, 3, 5))
           (pdfPath sample_env sample_config (sample_invoice ''2024/001'' (2024, 3, 5)))
           (xmlPath sample_env sample_config (sample_invoice ''2024/001'' (2024, 3, 5)))])"
  "MkdirAll sample_env tr path = None"
  "DownloadInvoice sample_env tr (sample_invoice ''2024/002'' date) pdf xml = Some ''timeout''"
  by (simp_all add: sample_env_def sample_invoice_def Let_def)

text \<open>
  Claim C8.  For every invoice list \<open>before @ invoice # after\<close>: when the loop has
  got through \<open>before\<close>, the directory of \<open>invoice\<close> is there and the download of
  \<open>invoice\<close> fails with \<open>err\<close>, the loop returns \<open>err\<close> wrapped with the identifier
  of \<open>invoice\<close>, and its last event is that one call of \<^verbatim>\<open>DownloadInvoice\<close>: the
  failed download is not tried again, no invoice of \<open>after\<close> is attempted, and the
  result does not depend on \<open>after\<close>.
\<close>

theorem downloadLoop_stops_at_failure:
  assumes "downloadLoop env cfg n i before tr = (None, tr1)"
    and "MkdirAll env (tr1 @ [Stdout (progressLine (i + length before) n)])
           (providerPath env cfg invoice) = None"
    and "DownloadInvoice env
           (tr1 @ [Stdout (progressLine (i + length before) n),
                   MkdirAllCall (providerPath env cfg invoice)])
           invoice (pdfPath env cfg invoice) (xmlPath env cfg invoice) = Some err"
  shows "downloadLoop env cfg n i (before @ invoice # after) tr
     = (Some (DownloadFailed (InvoiceID invoice) err),
        tr1 @ [Stdout (progressLine (i + length before) n),
               MkdirAllCall (providerPath env cfg invoice),
               DownloadInvoiceCall invoice (pdfPath env cfg invoice) (xmlPath env cfg invoice)])"
  using assms by (simp add: downloadLoop_append Let_def)

theorem downloadLoop_stops_at_failure_witness:
  "downloadLoop sample_env sample_config 3 0 sample_invoices []
     = (Some (DownloadFailed ''2024/002'' ''timeout''),
        [Stdout (progressLine 0 3),
         MkdirAllCall (providerPath sample_env sample_config
           (sample_invoice ''2024/001'' (2024, 3, 5))),
         DownloadInvoiceCall (sample_invoice ''2024/001'' (2024, 3, 5))
           (pdfPath sample_env sample_config (sample_invoice ''2024/001'' (2024, 3, 5)))
           (xmlPath sample_env sample_config (sample_invoice ''2024/001'' (2024, 3, 5))),
         Stdout (progressLine 1 3),
         MkdirAllCall (providerPath sample_env sample_config
           (sample_invoice ''2024/002'' (2024, 3, 6))),
         DownloadInvoiceCall (sample_invoice ''2024/002'' (2024, 3, 6))
           (pdfPath sample_env sample_config (sample_invoice ''2024/002'' (2024, 3, 6)))
           (xmlPath sample_env sample_config (sample_invoice ''2024/002'' (2024, 3, 6)))])"
  using downloadLoop_stops_at_failure [where env = sample_env and cfg = sample_config
      and n = 3 and i = 0 and tr = "[]"
      and before = "[sample_invoice ''2024/001'' (2024, 3, 5)]"
      and invoice = "sample_invoice ''2024/002'' (2024, 3, 6)"
      and after = "[sample_invoice ''2024/003'' (2024, 3, 7)]"
      and err = "''timeout''", OF download_samples]
  by (simp add: sample_invoices_def) (simp add: sample_invoice_def)

section \<open>The checks of the configuration\<close>

lemma Parse_Nil: "Parse [] = None"
  by (simp add: Parse_def)

lemma parseDateFlag_Parse: "Parse v = Some t \<Longrightarrow> parseDateFlag name v = Inr t"
  by (cases v) (simp_all add: parseDateFlag_def Parse_Nil)

lemma check_samples:
  "Parse ''2024-02-01'' = Some (2024, 2, 1)"
  "Parse ''2024-01-01'' = Some (2024, 1, 1)"
  "Parse ''0001-01-01'' = Some zeroTime"
  by code_simp+

text \<open>
  Claim C6, as amended.  For every configuration with a user name and a password in
  which both the resume flag and the redownload flag are set, \<open>run\<close> fails with the
  conflicting-flags error before it does anything, whatever the other fields, the
  collaborators and the case table are.
\<close>

theorem run_conflicting_flags:
  assumes "username cfg \<noteq> []" and "password cfg \<noteq> []"
    and "resume cfg" and "redownload cfg"
  shows "run lc env cfg tr = (Some ConflictingFlags, tr)"
  using assms by (simp add: run_def)

theorem run_conflicting_flags_witness:
  "run latin1_lower sample_env (sample_config\<lparr>resume := True, redownload := True\<rparr>) []
     = (Some ConflictingFlags, [])"
  using run_conflicting_flags [of "sample_config\<lparr>resume := True, redownload := True\<rparr>"
      latin1_lower sample_env "[]"]
  by (simp add: sample_config_def)

text \<open>Claim C6 as it is stated fails on a configuration without user name: the
  error is the one of the missing credentials.\<close>

theorem run_conflicting_flags_counterexample:
  "run latin1_lower sample_env
     (sample_config\<lparr>username := [], resume := True, redownload := True\<rparr>) []
     = (Some MissingCredentials, [])"
  by (simp add: run_def sample_config_def)

text \<open>
  Claim C7, as amended.  For every configuration with a user name and a password whose
  two flags are not both set, and whose bounds \<^verbatim>\<open>from\<close> and \<^verbatim>\<open>to\<close> parse to dates
  other than the zero date with \<^verbatim>\<open>from\<close> after \<^verbatim>\<open>to\<close>, \<open>run\<close> fails with the
  invalid-range error of the two dates before it does anything.
\<close>

theorem run_invalid_range:
  assumes "username cfg \<noteq> []" and "password cfg \<noteq> []"
    and "\<not> (resume cfg \<and> redownload cfg)"
    and "Parse (cfg_from cfg) = Some fromDate" and "Parse (cfg_to cfg) = Some toDate"
    and "fromDate \<noteq> zeroTime" and "toDate \<noteq> zeroTime"
    and "toDate < fromDate"
  shows "run lc env cfg tr = (Some (InvalidRange fromDate toDate), tr)"
  using assms by (simp add: run_def parseDateFlag_Parse IsZero_def After_def)

theorem run_invalid_range_witness:
  "run latin1_lower sample_env
     (sample_config\<lparr>cfg_from := ''2024-02-01'', cfg_to := ''2024-01-01''\<rparr>) []
     = (Some (InvalidRange (2024, 2, 1) (2024, 1, 1)), [])"
  using run_invalid_range [of "sample_config\<lparr>cfg_from := ''2024-02-01'', cfg_to := ''2024-01-01''\<rparr>"
      "(2024, 2, 1)" "(2024, 1, 1)" latin1_lower sample_env "[]"]
  by (simp add: sample_config_def check_samples zeroTime_def)

text \<open>Claim C7 as it is stated fails on a configuration with both flags set: both
  bounds are set, \<^verbatim>\<open>from\<close> is after \<^verbatim>\<open>to\<close>, and the error is the one of the
  conflicting flags.\<close>

theorem run_invalid_range_counterexample:
  "Parse ''2024-02-01'' = Some (2024, 2, 1) \<and> Parse ''2024-01-01'' = Some (2024, 1, 1)
   \<and> After (2024, 2, 1) (2024, 1, 1)
   \<and> run latin1_lower sample_env
        (sample_config\<lparr>cfg_from := ''2024-02-01'', cfg_to := ''2024-01-01'',
           resume := True, redownload := True\<rparr>) []
      = (Some ConflictingFlags, [])"
  by (simp add: run_def sample_config_def check_samples After_def)

text \<open>A bound that is the zero date \<^verbatim>\<open>0001-01-01\<close> counts as not set: with
  \<^verbatim>\<open>--from 2024-01-01 --to 0001-01-01\<close> the check of the range is passed over, and the
  program goes on with \<^verbatim>\<open>to\<close> open.\<close>

lemma run_zero_date_bound:
  "run lc env (sample_config\<lparr>cfg_from := ''2024-01-01'', cfg_to := ''0001-01-01''\<rparr>) tr
     = run_service lc env (sample_config\<lparr>cfg_from := ''2024-01-01'', cfg_to := ''0001-01-01''\<rparr>)
         (2024, 1, 1) zeroTime tr"
  by (simp add: run_def sample_config_def parseDateFlag_Parse check_samples IsZero_def)

section \<open>The range of the query\<close>

text \<open>The download loop and the prompt add events after those they start from, and
  none of them is a query.\<close>

lemma downloadLoop_events:
  "\<exists>rest. snd (downloadLoop env cfg n i invoices tr) = tr @ rest
     \<and> (\<forall>q. InvoicesCall q \<notin> set rest)"
proof (induction invoices arbitrary: i tr)
  case Nil
  then show ?case by simp
next
  case (Cons invoice invoices)
  show ?case
  proof (cases "MkdirAll env (tr @ [Stdout (progressLine i n)]) (providerPath env cfg invoice)")
    case (Some err)
    then show ?thesis by (simp add: Let_def)
  next
    case None
    note mk = this
    show ?thesis
    proof (cases "DownloadInvoice env
        (tr @ [Stdout (progressLine i n), MkdirAllCall (providerPath env cfg invoice)]) invoice
        (pdfPath env cfg invoice) (xmlPath env cfg invoice)")
      case (Some err)
      then show ?thesis using mk by (simp add: Let_def)
    next
      case None
      obtain rest where
        "snd (downloadLoop env cfg n (i + 1) invoices
           (tr @ [Stdout (progressLine i n), MkdirAllCall (providerPath env cfg invoice),
                  DownloadInvoiceCall invoice (pdfPath env cfg invoice) (xmlPath env cfg invoice)]))
         = (tr @ [Stdout (progressLine i n), MkdirAllCall (providerPath env cfg invoice),
                  DownloadInvoiceCall invoice (pdfPath env cfg invoice) (xmlPath env cfg invoice)])
           @ rest"
        and "\<forall>q. InvoicesCall q \<notin> set rest"
        using Cons.IH by blast
      then show ?thesis
        using mk None by (simp add: Let_def)
    qed
  qed
qed

lemma promptResume_events:
  "snd (promptResume lc env latest tr) = tr @ [Stdout (promptText latest), StdinReadString]"
  by (simp add: promptResume_def Let_def split: prod.split option.split)

lemma effectiveRange_redownload:
  "redownload cfg \<Longrightarrow>
   effectiveRange lc env cfg fromDate toDate latest hasLocal tr = (Inr (zeroTime, zeroTime), tr)"
  by (simp add: effectiveRange_def)

text \<open>With the redownload flag, a query that \<open>run_invoices\<close> sends has both bounds
  open.\<close>

lemma run_invoices_redownload:
  assumes "redownload cfg"
    and "InvoicesCall q \<in> set (snd (run_invoices lc env cfg fromDate toDate providers token tr))"
  shows "InvoicesCall q \<in> set tr \<or> (query_From q = zeroTime \<and> query_To q = zeroTime)"
proof -
  define q0 where "q0 = (\<lambda>p. \<lparr>query_Provider = p, query_IssuerID = issuerID cfg,
    query_From = zeroTime, query_To = zeroTime, query_Token = token\<rparr>)"
  have loop: "InvoicesCall q \<in> set (snd (downloadLoop env cfg n i invoices tr'))
      \<Longrightarrow> InvoicesCall q \<in> set tr'" for n i invoices tr'
    using downloadLoop_events [of env cfg n i invoices tr'] by auto
  show ?thesis
    using assms
    by (auto simp: run_invoices_def effectiveRange_redownload Let_def q0_def [symmetric]
        split: sum.splits prod.splits if_splits dest!: loop)
qed

lemma sample_run_redownload:
  "run latin1_lower sample_env
     (sample_config\<lparr>cfg_to := ''2024-12-31'', redownload := True, listInvoices := True,
        downloadPDF := False\<rparr>) []
   = (None,
      [LoginCall ''user'' ''secret'', ProvidersCall,
       InvoicesCall \<lparr>query_Provider = [], query_IssuerID = [], query_From = (1, 1, 1),
         query_To = (1, 1, 1), query_Token = ''token''\<rparr>,
       Stdout (''2024-03-05 | acme | 42 | 2024/001'' @ [CHR 0x0A]),
       Stdout (''2024-03-06 | acme | 42 | 2024/002'' @ [CHR 0x0A]),
       Stdout (''2024-03-07 | acme | 42 | 2024/003'' @ [CHR 0x0A])])"
  by code_simp

text \<open>
  Claim C5.  With the redownload flag set, the range that the program computes has both
  bounds open, whatever the explicit bounds and the result of the scan are; and every
  query that \<open>run\<close> sends has both bounds open.
\<close>

theorem run_redownload_open_range:
  "(redownload cfg \<longrightarrow>
      effectiveRange lc env cfg fromDate toDate latest hasLocal tr
        = (Inr (zeroTime, zeroTime), tr))
   \<and> (redownload cfg \<and> InvoicesCall q \<in> set (snd (run lc env cfg tr))
        \<and> InvoicesCall q \<notin> set tr \<longrightarrow>
      query_From q = zeroTime \<and> query_To q = zeroTime)"
proof (intro conjI impI)
  show "effectiveRange lc env cfg fromDate toDate latest hasLocal tr
        = (Inr (zeroTime, zeroTime), tr)" if "redownload cfg"
    using that by (rule effectiveRange_redownload)
  show "query_From q = zeroTime" "query_To q = zeroTime"
    if h: "redownload cfg \<and> InvoicesCall q \<in> set (snd (run lc env cfg tr))
        \<and> InvoicesCall q \<notin> set tr"
  proof -
    have "query_From q = zeroTime \<and> query_To q = zeroTime"
      using h
      by (auto simp: run_def run_service_def Let_def
          split: sum.splits prod.splits if_splits option.splits
          dest!: run_invoices_redownload [rotated])
    then show "query_From q = zeroTime" "query_To q = zeroTime"
      by simp_all
  qed
qed

theorem run_redownload_open_range_witness:
  "InvoicesCall \<lparr>query_Provider = [], query_IssuerID = [], query_From = zeroTime,
         query_To = zeroTime, query_Token = ''token''\<rparr>
     \<in> set (snd (run latin1_lower sample_env
         (sample_config\<lparr>cfg_to := ''2024-12-31'', redownload := True, listInvoices := True,
            downloadPDF := False\<rparr>) []))"
  using run_redownload_open_range [where lc = latin1_lower and env = sample_env
      and cfg = "sample_config\<lparr>cfg_to := ''2024-12-31'', redownload := True,
            listInvoices := True, downloadPDF := False\<rparr>" and tr = "[]"
      and q = "\<lparr>query_Provider = [], query_IssuerID = [], query_From = zeroTime,
         query_To = zeroTime, query_Token = ''token''\<rparr>"]
  by (simp add: sample_run_redownload zeroTime_def)

text \<open>The range that \<open>effectiveRange\<close> returns is the range of the query: when the
  scan and the resolution of the provider succeed, the next event of \<open>run_invoices\<close>
  after those of \<open>effectiveRange\<close> is the call of \<^verbatim>\<open>Invoices\<close> with that range.\<close>

lemma run_invoices_query:
  assumes "latestInvoiceDate lc (Stat env tr (invoicePath cfg)) (Tree env tr (invoicePath cfg))
             (invoicePath cfg) = Inr (latest, found)"
    and "effectiveRange lc env cfg fromDate toDate latest found tr = (Inr (from', to'), tr1)"
    and "resolveProvider lc (provider cfg) providers = Inr prov"
  shows "\<exists>rest. snd (run_invoices lc env cfg fromDate toDate providers token tr)
     = tr1 @ InvoicesCall \<lparr>query_Provider = prov, query_IssuerID = issuerID cfg,
         query_From = from', query_To = to', query_Token = token\<rparr> # rest"
proof -
  define q where "q = \<lparr>query_Provider = prov, query_IssuerID = issuerID cfg,
         query_From = from', query_To = to', query_Token = token\<rparr>"
  have loop: "\<exists>rest. snd (downloadLoop env cfg n i invoices (tr1 @ InvoicesCall q # more))
      = tr1 @ InvoicesCall q # rest" for n i invoices more
    using downloadLoop_events [of env cfg n i invoices "tr1 @ InvoicesCall q # more"] by auto
  show ?thesis
  proof (cases "Invoices env tr1 q")
    case (Inl err)
    then show ?thesis
      using assms by (simp add: run_invoices_def q_def)
  next
    case (Inr invoices)
    then show ?thesis
      using assms loop [of "length invoices" 0 invoices "[]"]
        loop [of "length invoices" 0 invoices "map (\<lambda>inv. Stdout
                 (Format (DateOfIssue inv) @ '' | '' @ Provider inv
                  @ '' | '' @ IssuerID inv @ '' | '' @ InvoiceID inv
                  @ [CHR 0x0A])) invoices"]
      by (auto simp: run_invoices_def q_def [symmetric] Let_def)
  qed
qed

text \<open>A line that the operator closes with a line feed is read up to and with the line
  feed.\<close>

lemma takeWhile_line:
  "d \<notin> set line \<Longrightarrow> takeWhile (\<lambda>c. c \<noteq> d) (line @ d # rest) = line"
  by (induction line) auto

lemma ReadString_line:
  "CHR 0x0A \<notin> set line \<Longrightarrow>
   ReadString (line @ CHR 0x0A # rest, eof) (CHR 0x0A) = (line @ [CHR 0x0A], None)"
  by (simp add: ReadString_def takeWhile_line)

lemma promptResume_line:
  assumes "Stdin env (tr @ [Stdout (promptText latest)]) = (line @ CHR 0x0A # rest, eof)"
    and "CHR 0x0A \<notin> set line"
  shows "promptResume lc env latest tr =
     (Inr (ToLower lc (TrimSpace (line @ [CHR 0x0A])) \<in> {[], ''y'', ''yes''}),
      tr @ [Stdout (promptText latest), StdinReadString])"
  using assms by (simp add: promptResume_def Let_def ReadString_line)

lemma prompt_samples:
  "ToLower latin1_lower (TrimSpace ('' Yes '' @ [CHR 0x0D, CHR 0x0A])) = ''yes''"
  "ToLower latin1_lower (TrimSpace (''n'' @ [CHR 0x0A])) = ''n''"
  "ToLower latin1_lower (TrimSpace ([] @ [CHR 0x0A])) = []"
  "AddDate_0_0_1 (2024, 3, 5) = (2024, 3, 6)"
  "AddDate_0_0_1 (2024, 2, 29) = (2024, 3, 1)"
  "AddDate_0_0_1 (2023, 12, 31) = (2024, 1, 1)"
  by code_simp+

text \<open>
  Claim C4.  When neither the resume flag nor the redownload flag is set and the scan
  found invoices, the program prints the prompt and reads a line from the operator; the
  answer confirms when, trimmed and lower-cased, it is empty, \<^verbatim>\<open>y\<close> or \<^verbatim>\<open>yes\<close>, and
  declines otherwise.  On confirmation the range starts one day after the latest local
  date, in place of the explicit bound \<^verbatim>\<open>from\<close>, and keeps the explicit bound
  \<^verbatim>\<open>to\<close>; on decline the explicit bounds are the range.  With the resume flag set,
  the redownload flag unset and invoices found, the range starts one day after the latest
  local date without any prompt.
\<close>

theorem effectiveRange_confirmation:
  "(\<not> resume cfg \<and> \<not> redownload cfg
      \<and> Stdin env (tr @ [Stdout (promptText latest)]) = (line @ CHR 0x0A # rest, eof)
      \<and> CHR 0x0A \<notin> set line \<longrightarrow>
    effectiveRange lc env cfg fromDate toDate latest True tr =
      (Inr (if ToLower lc (TrimSpace (line @ [CHR 0x0A])) \<in> {[], ''y'', ''yes''}
            then AddDate_0_0_1 latest else fromDate, toDate),
       tr @ [Stdout (promptText latest), StdinReadString]))
   \<and> (resume cfg \<and> \<not> redownload cfg \<longrightarrow>
    effectiveRange lc env cfg fromDate toDate latest True tr
      = (Inr (AddDate_0_0_1 latest, toDate), tr))"
proof (intro conjI impI)
  assume h: "\<not> resume cfg \<and> \<not> redownload cfg
      \<and> Stdin env (tr @ [Stdout (promptText latest)]) = (line @ CHR 0x0A # rest, eof)
      \<and> CHR 0x0A \<notin> set line"
  then have "promptResume lc env latest tr =
     (Inr (ToLower lc (TrimSpace (line @ [CHR 0x0A])) \<in> {[], ''y'', ''yes''}),
      tr @ [Stdout (promptText latest), StdinReadString])"
    by (intro promptResume_line) auto
  then show "effectiveRange lc env cfg fromDate toDate latest True tr =
      (Inr (if ToLower lc (TrimSpace (line @ [CHR 0x0A])) \<in> {[], ''y'', ''yes''}
            then AddDate_0_0_1 latest else fromDate, toDate),
       tr @ [Stdout (promptText latest), StdinReadString])"
    using h by (simp add: effectiveRange_def)
next
  assume "resume cfg \<and> \<not> redownload cfg"
  then show "effectiveRange lc env cfg fromDate toDate latest True tr
      = (Inr (AddDate_0_0_1 latest, toDate), tr)"
    by (simp add: effectiveRange_def)
qed

theorem effectiveRange_confirmation_witness:
  "effectiveRange latin1_lower sample_env sample_config (2024, 1, 1) zeroTime (2024, 3, 5) True []
     = (Inr ((2024, 3, 6), zeroTime), [Stdout (promptText (2024, 3, 5)), StdinReadString])
   \<and> effectiveRange latin1_lower (sample_env\<lparr>Stdin := \<lambda>tr. (''n'' @ [CHR 0x0A], ''EOF'')\<rparr>)
       sample_config (2024, 1, 1) zeroTime (2024, 2, 10) True []
     = (Inr ((2024, 1, 1), zeroTime), [Stdout (promptText (2024, 2, 10)), StdinReadString])
   \<and> effectiveRange latin1_lower sample_env (sample_config\<lparr>resume := True\<rparr>)
       (2024, 1, 1) zeroTime (2024, 2, 29) True []
     = (Inr ((2024, 3, 1), zeroTime), [])"
  using
    effectiveRange_confirmation [where lc = latin1_lower and env = sample_env
      and cfg = sample_config and fromDate = "(2024, 1, 1)" and toDate = zeroTime
      and latest = "(2024, 3, 5)" and tr = "[]" and line = "'' Yes '' @ [CHR 0x0D]"
      and rest = "''more''" and eof = "''EOF''", THEN conjunct1]
    effectiveRange_confirmation [where lc = latin1_lower
      and env = "sample_env\<lparr>Stdin := \<lambda>tr. (''n'' @ [CHR 0x0A], ''EOF'')\<rparr>"
      and cfg = sample_config and fromDate = "(2024, 1, 1)" and toDate = zeroTime
      and latest = "(2024, 2, 10)" and tr = "[]" and line = "''n''"
      and rest = "[]" and eof = "''EOF''", THEN conjunct1]
    effectiveRange_confirmation [where lc = latin1_lower and env = sample_env
      and cfg = "sample_config\<lparr>resume := True\<rparr>" and fromDate = "(2024, 1, 1)"
      and toDate = zeroTime and latest = "(2024, 2, 29)" and tr = "[]", THEN conjunct2]
    prompt_samples
  by (simp add: sample_env_def sample_config_def)

text \<open>
  Claim C10.  With the resume flag set, the redownload flag unset and no invoice found
  by the scan, the range is the explicit bounds as they are, and nothing is printed or
  read: no prompt occurs.
\<close>

theorem effectiveRange_resume_nothing_found:
  assumes "resume cfg" and "\<not> redownload cfg"
  shows "effectiveRange lc env cfg fromDate toDate latest False tr = (Inr (fromDate, toDate), tr)"
  using assms by (simp add: effectiveRange_def)

theorem effectiveRange_resume_nothing_found_witness:
  "effectiveRange latin1_lower sample_env (sample_config\<lparr>resume := True\<rparr>)
     (2024, 1, 1) (2024, 12, 31) zeroTime False []
     = (Inr ((2024, 1, 1), (2024, 12, 31)), [])"
  using effectiveRange_resume_nothing_found [of "sample_config\<lparr>resume := True\<rparr>"
      latin1_lower sample_env "(2024, 1, 1)" "(2024, 12, 31)" zeroTime "[]"]
  by (simp add: sample_config_def)

end
